theory Spec2Isabelle
  imports Complex_Main "HOL-Library.Log_Nat"
begin

section \<open>Strings\<close>

text \<open>
  A JavaScript string is a sequence of UTF-16 code units, and \<open>length\<close>, \<open>charAt\<close>,
  \<open>substring\<close> and the regular expressions of the validation module (none has the
  \<open>u\<close> flag) all work on code units. A code unit is modelled by its number, so that
  every string the functions can receive is covered, not only the ASCII ones; \<open>str\<close>
  turns a literal into such a sequence.
\<close>

type_synonym code_unit = nat
type_synonym jsstring = "code_unit list"

definition str :: "string \<Rightarrow> jsstring" where
  "str s = map of_char s"

text \<open>The class \<open>\d\<close> without the \<open>u\<close> flag: the ten ASCII digits.\<close>

definition isDigit :: "code_unit \<Rightarrow> bool" where
  "isDigit c \<longleftrightarrow> 48 \<le> c \<and> c \<le> 57"

text \<open>
  The number a single decimal digit denotes. The source obtains it with \<open>+el\<close> and with
  \<open>parseInt(s.charAt(k))\<close>, always on a code unit of a string from which every non-digit
  has been removed, and with \<open>k\<close> inside the string.
\<close>

definition digitVal :: "code_unit \<Rightarrow> int" where
  "digitVal c = int c - 48"

text \<open>\<open>s.replace(/[^\d]+/g, '')\<close> and \<open>s.replace(/[^\d]/g, '')\<close>: every non-digit is deleted.\<close>

definition cleanDigits :: "jsstring \<Rightarrow> jsstring" where
  "cleanDigits s = filter isDigit s"

text \<open>
  \<open>s.match(/(\d)\1{n}/)\<close> finds a match: somewhere in \<open>s\<close> a digit is followed by
  \<open>n\<close> more copies of itself.
\<close>

fun matchRepeated :: "nat \<Rightarrow> jsstring \<Rightarrow> bool" where
  "matchRepeated n [] = False"
| "matchRepeated n (c # cs) =
     ((isDigit c \<and> n \<le> length cs \<and> take n cs = replicate n c) \<or> matchRepeated n cs)"

text \<open>\<open>xs.slice(0, e)\<close>: a negative end counts from the end of the array.\<close>

definition slice0 :: "'a list \<Rightarrow> int \<Rightarrow> 'a list" where
  "slice0 xs e =
     (let n = int (length xs);
          k = (if e < 0 then max (n + e) 0 else min e n)
      in take (nat k) xs)"

text \<open>\<open>xs.reduce((acc, el, index) => f acc el index, init)\<close>, the index starting at \<open>i\<close>.\<close>

fun reduceIdx :: "('b \<Rightarrow> 'a \<Rightarrow> nat \<Rightarrow> 'b) \<Rightarrow> 'a list \<Rightarrow> nat \<Rightarrow> 'b \<Rightarrow> 'b" where
  "reduceIdx f [] i acc = acc"
| "reduceIdx f (x # xs) i acc = reduceIdx f xs (Suc i) (f acc x i)"

text \<open>\<open>s.substring(a, b)\<close> with \<open>a \<le> b\<close>, and \<open>s.substring(a)\<close>.\<close>

definition substring :: "jsstring \<Rightarrow> nat \<Rightarrow> nat \<Rightarrow> jsstring" where
  "substring s a b = drop (min a (length s)) (take (min b (length s)) s)"

definition substringFrom :: "jsstring \<Rightarrow> nat \<Rightarrow> jsstring" where
  "substringFrom s a = drop (min a (length s)) s"

section \<open>The individual identifier (CPF)\<close>

text \<open>
  \<^verbatim>\<open>
  validateCPF(cpf: string): boolean {
    cpf = cpf.replace(/[^\d]+/g, '');
    if (cpf.length !== 11 || !!cpf.match(/(\d)\1{10}/)) { return false; }
    const cpfArray = cpf.split('').map(el => +el);
    const rest = (count: number) => {
      return (cpfArray.slice(0, count-12)
        .reduce((soma, el, index) => (soma + el * (count-index)), 0) * 10) % 11 % 10;
    };
    return rest(10) === cpfArray[9] && rest(11) === cpfArray[10];
  }
  \<close>
  All the numbers are small non-negative integers, on which the double arithmetic of
  JavaScript is exact and \<open>%\<close> is \<open>mod\<close>.
\<close>

definition rest :: "int list \<Rightarrow> int \<Rightarrow> int" where
  "rest cpfArray count =
     (reduceIdx (\<lambda>soma el index. soma + el * (count - int index))
        (slice0 cpfArray (count - 12)) 0 0 * 10) mod 11 mod 10"

definition validateCPF :: "jsstring \<Rightarrow> bool" where
  "validateCPF cpf0 =
     (let cpf = cleanDigits cpf0
      in if length cpf \<noteq> 11 \<or> matchRepeated 10 cpf then False
         else let cpfArray = map digitVal cpf
              in rest cpfArray 10 = cpfArray ! 9 \<and> rest cpfArray 11 = cpfArray ! 10)"

section \<open>The business identifier (CNPJ)\<close>

text \<open>
  The loop
  \<^verbatim>\<open>
  for (let i = tamanho; i >= 1; i--) {
    soma += parseInt(numeros.charAt(tamanho - i)) * pos--;
    if (pos < 2) pos = 9;
  }
  \<close>
  as a recursion over its variables \<open>i\<close>, \<open>soma\<close> and \<open>pos\<close>; it returns the final
  \<open>soma\<close>.
\<close>

function cnpjLoop :: "jsstring \<Rightarrow> int \<Rightarrow> int \<Rightarrow> int \<Rightarrow> int \<Rightarrow> int" where
  "cnpjLoop numeros tamanho i soma pos =
     (if i \<ge> 1 then
        let soma' = soma + digitVal (numeros ! nat (tamanho - i)) * pos;
            pos' = pos - 1;
            pos'' = (if pos' < 2 then 9 else pos')
        in cnpjLoop numeros tamanho (i - 1) soma' pos''
      else soma)"
  by pat_completeness auto
termination
  by (relation "measure (\<lambda>(numeros, tamanho, i, soma, pos). nat i)") auto

declare cnpjLoop.simps [simp del]

text \<open>\<open>soma % 11 < 2 ? 0 : 11 - soma % 11\<close>\<close>

definition resultado :: "int \<Rightarrow> int" where
  "resultado soma = (if soma mod 11 < 2 then 0 else 11 - soma mod 11)"

text \<open>
  \<^verbatim>\<open>
  validateCNPJ(cnpj: string): boolean {
    cnpj = cnpj.replace(/[^\d]+/g, '');
    if (cnpj.length !== 14) return false;
    if (cnpj === "00000000000000" || ... || cnpj === "99999999999999") { return false; }
    let tamanho = cnpj.length - 2;
    let numeros = cnpj.substring(0, tamanho);
    let digitos = cnpj.substring(tamanho);
    let soma = 0;
    let pos = tamanho - 7;
    for (...) { ... }
    let resultado = soma % 11 < 2 ? 0 : 11 - soma % 11;
    if (resultado !== parseInt(digitos.charAt(0))) return false;
    tamanho = tamanho + 1;
    numeros = cnpj.substring(0, tamanho);
    soma = 0;
    pos = tamanho - 7;
    for (...) { ... }
    resultado = soma % 11 < 2 ? 0 : 11 - soma % 11;
    if (resultado !== parseInt(digitos.charAt(1))) return false;
    return true;
  }
  \<close>
  The ten strings of the second test are kept as a list.
\<close>

definition degenerateCNPJ :: "jsstring list" where
  "degenerateCNPJ =
     [str ''00000000000000'', str ''11111111111111'', str ''22222222222222'',
      str ''33333333333333'', str ''44444444444444'', str ''55555555555555'',
      str ''66666666666666'', str ''77777777777777'', str ''88888888888888'',
      str ''99999999999999'']"

definition validateCNPJ :: "jsstring \<Rightarrow> bool" where
  "validateCNPJ cnpj0 =
     (let cnpj = cleanDigits cnpj0
      in if length cnpj \<noteq> 14 then False
         else if cnpj \<in> set degenerateCNPJ then False
         else
           let tamanho = length cnpj - 2;
               numeros = substring cnpj 0 tamanho;
               digitos = substringFrom cnpj tamanho;
               soma = cnpjLoop numeros (int tamanho) (int tamanho) 0 (int tamanho - 7)
           in if resultado soma \<noteq> digitVal (digitos ! 0) then False
              else
                let tamanho = tamanho + 1;
                    numeros = substring cnpj 0 tamanho;
                    soma = cnpjLoop numeros (int tamanho) (int tamanho) 0 (int tamanho - 7)
                in if resultado soma \<noteq> digitVal (digitos ! 1) then False
                   else True)"

section \<open>The identifier classifier\<close>

datatype doc_type = CPF | CNPJ

record validation_result =
  isValid :: bool
  message :: jsstring

record document_result = validation_result +
  type :: "doc_type option"

text \<open>
  \<^verbatim>\<open>
  validateDocument(document: string): { isValid: boolean; type: 'CPF' | 'CNPJ' | null; message: string } {
    const cleanDoc = document.replace(/[^\d]+/g, '');
    if (cleanDoc.length === 11) {
      const isValid = this.validateCPF(document);
      return { isValid, type: 'CPF', message: isValid ? 'CPF valido' : 'CPF invalido' };
    } else if (cleanDoc.length === 14) {
      const isValid = this.validateCNPJ(document);
      return { isValid, type: 'CNPJ', message: isValid ? 'CNPJ valido' : 'CNPJ invalido' };
    }
    return { isValid: false, type: null,
             message: 'Documento deve ter 11 digitos (CPF) ou 14 digitos (CNPJ)' };
  }
  \<close>
  The messages of the source carry accented letters, each a single code unit: 225 for the
  a of \<open>valido\<close>, 237 for the first i of \<open>digitos\<close>, and in the field validators below
  233 for the word \<open>e\<close>, 243 for the second o of \<open>obrigatorio\<close> and 250 for the u of
  \<open>numero\<close>. They are written here by these numbers.
\<close>

definition validateDocument :: "jsstring \<Rightarrow> document_result" where
  "validateDocument document =
     (let cleanDoc = cleanDigits document
      in if length cleanDoc = 11 then
           let v = validateCPF document
           in \<lparr>isValid = v,
               message = (if v then str ''CPF v'' @ [225] @ str ''lido''
                          else str ''CPF inv'' @ [225] @ str ''lido''),
               type = Some CPF\<rparr>
         else if length cleanDoc = 14 then
           let v = validateCNPJ document
           in \<lparr>isValid = v,
               message = (if v then str ''CNPJ v'' @ [225] @ str ''lido''
                          else str ''CNPJ inv'' @ [225] @ str ''lido''),
               type = Some CNPJ\<rparr>
         else \<lparr>isValid = False,
               message = str ''Documento deve ter 11 d'' @ [237] @ str ''gitos (CPF) ou 14 d''
                         @ [237] @ str ''gitos (CNPJ)'',
               type = None\<rparr>)"

section \<open>Phone formatting\<close>

text \<open>
  The first place in \<open>s\<close> where \<open>n\<close> digits stand in a row, as the text before the
  match, the match and the text after it: what a regular expression made of groups of
  \<open>\d{k}\<close> with \<open>n\<close> digits in all matches.
\<close>

fun findDigits :: "nat \<Rightarrow> jsstring \<Rightarrow> (jsstring \<times> jsstring \<times> jsstring) option" where
  "findDigits n [] = (if n = 0 then Some ([], [], []) else None)"
| "findDigits n (c # cs) =
     (if n \<le> length (c # cs) \<and> list_all isDigit (take n (c # cs))
      then Some ([], take n (c # cs), drop n (c # cs))
      else map_option (\<lambda>(b, m, a). (c # b, m, a)) (findDigits n cs))"

text \<open>
  \<open>s.replace(/(\d{g1})(\d{g2})(\d{g3})/, '($1) $2-$3')\<close>: the first match is replaced,
  the rest of the string is kept.
\<close>

definition replacePhone :: "nat \<Rightarrow> nat \<Rightarrow> nat \<Rightarrow> jsstring \<Rightarrow> jsstring" where
  "replacePhone g1 g2 g3 s =
     (case findDigits (g1 + g2 + g3) s of
        None \<Rightarrow> s
      | Some (b, m, a) \<Rightarrow>
          b @ str ''('' @ take g1 m @ str '') '' @ take g2 (drop g1 m) @ str ''-''
            @ drop (g1 + g2) m @ a)"

text \<open>
  \<^verbatim>\<open>
  formatPhone(phone: string): string {
    const cleanPhone = phone.replace(/[^\d]/g, '');
    if (cleanPhone.length === 10) {
      return cleanPhone.replace(/(\d{2})(\d{4})(\d{4})/, '($1) $2-$3');
    } else if (cleanPhone.length === 11) {
      return cleanPhone.replace(/(\d{2})(\d{5})(\d{4})/, '($1) $2-$3');
    }
    return phone;
  }
  \<close>
\<close>

definition formatPhone :: "jsstring \<Rightarrow> jsstring" where
  "formatPhone phone =
     (let cleanPhone = cleanDigits phone
      in if length cleanPhone = 10 then replacePhone 2 4 4 cleanPhone
         else if length cleanPhone = 11 then replacePhone 2 5 4 cleanPhone
         else phone)"

section \<open>Numbers\<close>

text \<open>
  A JavaScript number is a double: NaN, one of the two infinities, or a finite value,
  kept here as the rational number it denotes. The two zeros are one value \<open>Fin 0\<close>:
  the validators only compare numbers and print them, and \<open>-0\<close> compares and prints
  as \<open>0\<close> does.
\<close>

datatype jsnum = NaN | NegInf | Fin rat | PosInf

definition isNaN :: "jsnum \<Rightarrow> bool" where
  "isNaN x \<longleftrightarrow> x = NaN"

text \<open>\<open>a < b\<close>, \<open>a > b\<close> and \<open>a >= b\<close>: a comparison with NaN is false.\<close>

fun js_lt :: "jsnum \<Rightarrow> jsnum \<Rightarrow> bool" where
  "js_lt NaN b = False"
| "js_lt a NaN = False"
| "js_lt a NegInf = False"
| "js_lt NegInf b = True"
| "js_lt PosInf b = False"
| "js_lt (Fin x) PosInf = True"
| "js_lt (Fin x) (Fin y) = (x < y)"

definition js_gt :: "jsnum \<Rightarrow> jsnum \<Rightarrow> bool" where
  "js_gt a b = js_lt b a"

definition js_ge :: "jsnum \<Rightarrow> jsnum \<Rightarrow> bool" where
  "js_ge a b \<longleftrightarrow> \<not> isNaN a \<and> \<not> isNaN b \<and> \<not> js_lt a b"

definition negate :: "jsnum \<Rightarrow> jsnum" where
  "negate x = (case x of NaN \<Rightarrow> NaN | NegInf \<Rightarrow> PosInf | PosInf \<Rightarrow> NegInf | Fin q \<Rightarrow> Fin (- q))"

subsection \<open>Rounding to a double\<close>

definition pow2 :: "int \<Rightarrow> rat" where
  "pow2 e = (if 0 \<le> e then 2 ^ nat e else 1 / 2 ^ nat (- e))"

definition pow10 :: "int \<Rightarrow> rat" where
  "pow10 e = (if 0 \<le> e then 10 ^ nat e else 1 / 10 ^ nat (- e))"

text \<open>
  For a positive \<open>q\<close>, the exponents with \<open>2 ^ ilog2 q \<le> q < 2 ^ (ilog2 q + 1)\<close> and
  \<open>10 ^ ilog10 q \<le> q < 10 ^ (ilog10 q + 1)\<close>, from the lengths of numerator and
  denominator.
\<close>

definition ilog2 :: "rat \<Rightarrow> int" where
  "ilog2 q = (let (a, b) = quotient_of q;
                  e = bitlen a - bitlen b
              in if pow2 e \<le> q then e else e - 1)"

definition ilog10 :: "rat \<Rightarrow> int" where
  "ilog10 q = (let (a, b) = quotient_of q;
                   e = int (floorlog 10 (nat a)) - int (floorlog 10 (nat b))
               in if pow10 e \<le> q then e else e - 1)"

definition roundHalfEven :: "rat \<Rightarrow> int" where
  "roundHalfEven q =
     (let f = \<lfloor>q\<rfloor>; d = q - of_int f
      in if d < 1 / 2 then f else if 1 / 2 < d then f + 1 else if even f then f else f + 1)"

text \<open>
  The double nearest to a non-negative rational, ties to the even significand: 53
  significant bits, the exponent of the last bit no smaller than -1074, and infinity
  from \<open>2 ^ 1024\<close> on.
\<close>

definition round64 :: "rat \<Rightarrow> jsnum" where
  "round64 q =
     (if q \<le> 0 then Fin 0
      else let u = max (ilog2 q) (- 1022) - 52;
               r = of_int (roundHalfEven (q / pow2 u)) * pow2 u
           in if pow2 1024 \<le> r then PosInf else Fin r)"

subsection \<open>parseFloat\<close>

text \<open>The white space and line terminators that \<open>parseFloat\<close> and \<open>trim\<close> skip.\<close>

definition isWhiteSpace :: "code_unit \<Rightarrow> bool" where
  "isWhiteSpace c \<longleftrightarrow>
     c \<in> {9, 10, 11, 12, 13, 32, 160, 5760, 8232, 8233, 8239, 8287, 12288, 65279}
     \<or> (8192 \<le> c \<and> c \<le> 8202)"

definition digitsValue :: "jsstring \<Rightarrow> nat" where
  "digitsValue ds = foldl (\<lambda>a c. 10 * a + nat (digitVal c)) 0 ds"

text \<open>A signed integer at the front of the string, if there is one.\<close>

definition signedDigits :: "jsstring \<Rightarrow> int option" where
  "signedDigits r =
     (let (neg, r') = (case r of
                         [] \<Rightarrow> (False, [])
                       | c # cs \<Rightarrow> if c = 45 then (True, cs)
                                  else if c = 43 then (False, cs) else (False, r));
          ds = takeWhile isDigit r'
      in if ds = [] then None
         else Some (if neg then - int (digitsValue ds) else int (digitsValue ds)))"

text \<open>
  The exponent part at the front of the string: \<open>e\<close> or \<open>E\<close> and a signed integer.
  Without one the exponent is 0.
\<close>

definition exponentPart :: "jsstring \<Rightarrow> int" where
  "exponentPart r =
     (case r of
        [] \<Rightarrow> 0
      | c # cs \<Rightarrow> if c = 101 \<or> c = 69
                 then (case signedDigits cs of None \<Rightarrow> 0 | Some e \<Rightarrow> e)
                 else 0)"

text \<open>
  The longest prefix of \<open>u\<close> of one of the forms \<open>digits . digits? exponent?\<close>,
  \<open>. digits exponent?\<close> and \<open>digits exponent?\<close>, as the number \<open>m\<close> its digits
  write and the power of ten \<open>e\<close> that scales it: the prefix denotes \<open>m * 10 ^ e\<close>.
\<close>

definition strDecimal :: "jsstring \<Rightarrow> (nat \<times> int) option" where
  "strDecimal u =
     (let ip = takeWhile isDigit u;
          r1 = dropWhile isDigit u;
          (fp, r2) = (case r1 of
                        [] \<Rightarrow> ([], [])
                      | c # cs \<Rightarrow> if c = 46 then (takeWhile isDigit cs, dropWhile isDigit cs)
                                 else ([], r1))
      in if ip = [] \<and> fp = [] then None
         else Some (digitsValue (ip @ fp), exponentPart r2 - int (length fp)))"

text \<open>The value of the longest unsigned decimal literal at the front, NaN without one.\<close>

definition unsignedLiteral :: "jsstring \<Rightarrow> jsnum" where
  "unsignedLiteral u =
     (if take 8 u = str ''Infinity'' then PosInf
      else case strDecimal u of
             None \<Rightarrow> NaN
           | Some (m, e) \<Rightarrow> round64 (of_nat m * pow10 e))"

definition parseFloat :: "jsstring \<Rightarrow> jsnum" where
  "parseFloat s =
     (case dropWhile isWhiteSpace s of
        [] \<Rightarrow> NaN
      | c # cs \<Rightarrow> if c = 45 then negate (unsignedLiteral cs)
                 else if c = 43 then unsignedLiteral cs
                 else unsignedLiteral (c # cs))"

subsection \<open>Printing a number\<close>

text \<open>The decimal digits of a natural number.\<close>

fun decimal :: "nat \<Rightarrow> jsstring" where
  "decimal n = (if n < 10 then [48 + n] else decimal (n div 10) @ [48 + n mod 10])"

declare decimal.simps [simp del]

text \<open>
  The \<open>k\<close>-digit decimal \<open>s * 10 ^ (n - k)\<close> nearest to \<open>q\<close> among those that read
  back as the double \<open>q\<close>, as \<open>(n, s)\<close>, where \<open>10 ^ (n0 - 1) \<le> q < 10 ^ n0\<close>. Only
  the two multiples of \<open>10 ^ (n0 - k)\<close> around \<open>q\<close> can read back as \<open>q\<close>; the upper
  one may have \<open>k + 1\<close> digits, and is then 1 followed by zeros, one place higher.
\<close>

definition candidate :: "rat \<Rightarrow> int \<Rightarrow> nat \<Rightarrow> (int \<times> nat) option" where
  "candidate q n0 k =
     (let scale = pow10 (n0 - int k);
          lo = \<lfloor>q / scale\<rfloor>;
          hi = lo + 1;
          okLo = (round64 (of_int lo * scale) = Fin q);
          okHi = (round64 (of_int hi * scale) = Fin q);
          dl = q - of_int lo * scale;
          dh = of_int hi * scale - q;
          s = (if okLo \<and> okHi
               then (if dl < dh then lo else if dh < dl then hi else if even lo then lo else hi)
               else if okLo then lo else hi)
      in if okLo \<or> okHi
         then Some (if s = 10 ^ k then (n0 + 1, 10 ^ (k - 1)) else (n0, nat s))
         else None)"

text \<open>
  The shortest such decimal: \<open>k\<close> counts up from its start value. A double has one with
  at most 17 digits; the equation for the spent fuel is reached only by a rational that is
  no double.
\<close>

fun shortest :: "rat \<Rightarrow> int \<Rightarrow> nat \<Rightarrow> nat \<Rightarrow> int \<times> nat \<times> nat" where
  "shortest q n0 k 0 = (n0, k, nat \<lfloor>q / pow10 (n0 - int k)\<rfloor>)"
| "shortest q n0 k (Suc fuel) =
     (case candidate q n0 k of
        Some (n, s) \<Rightarrow> (n, k, s)
      | None \<Rightarrow> shortest q n0 (Suc k) fuel)"

text \<open>\<open>Number::toString\<close> in radix 10 for a positive finite number.\<close>

definition positiveToString :: "rat \<Rightarrow> jsstring" where
  "positiveToString q =
     (let (n, k, s) = shortest q (ilog10 q + 1) 1 17;
          ds = decimal s
      in if int k \<le> n \<and> n \<le> 21 then ds @ replicate (nat (n - int k)) 48
         else if 0 < n \<and> n \<le> 21 then take (nat n) ds @ str ''.'' @ drop (nat n) ds
         else if - 6 < n \<and> n \<le> 0 then str ''0.'' @ replicate (nat (- n)) 48 @ ds
         else let e = n - 1;
                  sgn = (if n < 0 then str ''-'' else str ''+'');
                  ex = decimal (nat \<bar>e\<bar>)
              in if k = 1 then ds @ str ''e'' @ sgn @ ex
                 else take 1 ds @ str ''.'' @ drop 1 ds @ str ''e'' @ sgn @ ex)"

text \<open>What a template literal puts in for a number.\<close>

definition numberToString :: "jsnum \<Rightarrow> jsstring" where
  "numberToString x =
     (case x of
        NaN \<Rightarrow> str ''NaN''
      | PosInf \<Rightarrow> str ''Infinity''
      | NegInf \<Rightarrow> str ''-Infinity''
      | Fin q \<Rightarrow> if q = 0 then str ''0''
                 else if q < 0 then str ''-'' @ positiveToString (- q)
                 else positiveToString q)"

section \<open>The field validators\<close>

text \<open>\<open>s.trim()\<close>: the white space at both ends is removed.\<close>

definition trim :: "jsstring \<Rightarrow> jsstring" where
  "trim s = rev (dropWhile isWhiteSpace (rev (dropWhile isWhiteSpace s)))"

text \<open>
  \<^verbatim>\<open>
  validateRequired(value: string, fieldName: string): { isValid: boolean; message: string } {
    const isValid = value.trim().length > 0;
    return { isValid, message: isValid ? '' : `${fieldName} e obrigatorio` };
  }
  \<close>
\<close>

definition validateRequired :: "jsstring \<Rightarrow> jsstring \<Rightarrow> validation_result" where
  "validateRequired value fieldName =
     (let v = (length (trim value) > 0)
      in \<lparr>isValid = v,
          message = (if v then []
                     else fieldName @ str '' '' @ [233] @ str '' obrigat'' @ [243] @ str ''rio'')\<rparr>)"

text \<open>
  \<^verbatim>\<open>
  validateNumber(value: string, min: number = 0, max?: number): { isValid: boolean; message: string } {
    const numValue = parseFloat(value);
    if (isNaN(numValue)) {
      return { isValid: false, message: 'Valor deve ser um numero valido' };
    }
    if (numValue < min) {
      return { isValid: false, message: `Valor minimo e ${min}` };
    }
    if (max !== undefined && numValue > max) {
      return { isValid: false, message: `Valor maximo e ${max}` };
    }
    return { isValid: true, message: '' };
  }
  \<close>
  An argument left out or \<open>undefined\<close> is \<open>None\<close>; the default of \<open>min\<close> then
  applies, and the test of \<open>max\<close> is skipped.
\<close>

definition validateNumber :: "jsstring \<Rightarrow> jsnum option \<Rightarrow> jsnum option \<Rightarrow> validation_result" where
  "validateNumber value minArg maxArg =
     (let minV = (case minArg of None \<Rightarrow> Fin 0 | Some m \<Rightarrow> m);
          numValue = parseFloat value
      in if isNaN numValue
         then \<lparr>isValid = False,
               message = str ''Valor deve ser um n'' @ [250] @ str ''mero v'' @ [225] @ str ''lido''\<rparr>
         else if js_lt numValue minV
         then \<lparr>isValid = False,
               message = str ''Valor m'' @ [237] @ str ''nimo '' @ [233] @ str '' ''
                         @ numberToString minV\<rparr>
         else case maxArg of
                Some maxV \<Rightarrow>
                  if js_gt numValue maxV
                  then \<lparr>isValid = False,
                        message = str ''Valor m'' @ [225] @ str ''ximo '' @ [233] @ str '' ''
                                  @ numberToString maxV\<rparr>
                  else \<lparr>isValid = True, message = []\<rparr>
              | None \<Rightarrow> \<lparr>isValid = True, message = []\<rparr>)"

text \<open>\<open>s.replace(a, b)\<close> with one-character strings: the first \<open>a\<close> becomes \<open>b\<close>.\<close>

fun replaceFirst :: "code_unit \<Rightarrow> code_unit \<Rightarrow> jsstring \<Rightarrow> jsstring" where
  "replaceFirst a b [] = []"
| "replaceFirst a b (c # cs) = (if c = a then b # cs else c # replaceFirst a b cs)"

text \<open>
  \<^verbatim>\<open>
  validateCurrency(value: string): boolean {
    const numValue = parseFloat(value.replace(/[^\d.,]/g, '').replace(',', '.'));
    return !isNaN(numValue) && numValue >= 0;
  }
  \<close>
\<close>

definition validateCurrency :: "jsstring \<Rightarrow> bool" where
  "validateCurrency value =
     (let numValue = parseFloat
            (replaceFirst 44 46 (filter (\<lambda>c. isDigit c \<or> c = 46 \<or> c = 44) value))
      in \<not> isNaN numValue \<and> js_ge numValue (Fin 0))"

section \<open>Definitions that follow the words of the specification\<close>

text \<open>
  The sum of the digits \<open>ds\<close>, each multiplied by the weight at the same position of
  \<open>ws\<close>.
\<close>

definition weightedSum :: "int list \<Rightarrow> int list \<Rightarrow> int" where
  "weightedSum ds ws = sum_list (map (\<lambda>(d, w). d * w) (zip ds ws))"

text \<open>
  The identifier the specification builds to test the validator: 9 base digits followed
  by the two check digits computed from them with the weighted sums, as a string of 11
  digit characters.
\<close>

definition digitChar :: "nat \<Rightarrow> code_unit" where
  "digitChar d = 48 + d"

definition cpfCheckDigit :: "int list \<Rightarrow> int list \<Rightarrow> int" where
  "cpfCheckDigit ds ws = (weightedSum ds ws * 10) mod 11 mod 10"

definition generateCPF :: "nat list \<Rightarrow> jsstring" where
  "generateCPF base =
     (let b = map int base;
          d1 = cpfCheckDigit b [10,9,8,7,6,5,4,3,2];
          d2 = cpfCheckDigit (b @ [d1]) [11,10,9,8,7,6,5,4,3,2]
      in map digitChar (base @ [nat d1, nat d2]))"

text \<open>
  Currency validity as the specification words it: everything but digits, \<open>.\<close> and
  \<open>,\<close> is stripped, one decimal comma (the first) becomes a dot, and the result parses
  as a non-negative number, where parsing is what \<open>parseFloat\<close> does.
\<close>

definition stripCurrency :: "jsstring \<Rightarrow> jsstring" where
  "stripCurrency s = filter (\<lambda>c. c \<in> set (str ''0123456789.,'')) s"

definition commaToDot :: "jsstring \<Rightarrow> jsstring" where
  "commaToDot s =
     takeWhile (\<lambda>c. c \<noteq> 44) s
     @ (case dropWhile (\<lambda>c. c \<noteq> 44) s of [] \<Rightarrow> [] | c # r \<Rightarrow> 46 # r)"

definition parsesNonNegative :: "jsstring \<Rightarrow> bool" where
  "parsesNonNegative s =
     (case parseFloat s of NaN \<Rightarrow> False | NegInf \<Rightarrow> False | Fin x \<Rightarrow> 0 \<le> x | PosInf \<Rightarrow> True)"

section \<open>Properties of the individual identifier\<close>

lemma isDigit_cleanDigits: "c \<in> set (cleanDigits s) \<Longrightarrow> isDigit c"
  by (simp add: cleanDigits_def)

lemma matchRepeated_11:
  "isDigit a0 \<Longrightarrow> matchRepeated 10 [a0,a1,a2,a3,a4,a5,a6,a7,a8,a9,a10] \<longleftrightarrow>
    (a1 = a0 \<and> a2 = a0 \<and> a3 = a0 \<and> a4 = a0 \<and> a5 = a0 \<and> a6 = a0 \<and> a7 = a0 \<and> a8 = a0 \<and> a9 = a0 \<and> a10 = a0)"
  by (auto simp: eval_nat_numeral)

lemma rest10: "rest [a0,a1,a2,a3,a4,a5,a6,a7,a8,a9,a10] 10 =
   (weightedSum [a0,a1,a2,a3,a4,a5,a6,a7,a8] [10,9,8,7,6,5,4,3,2] * 10) mod 11 mod 10"
  by (simp add: rest_def slice0_def weightedSum_def eval_nat_numeral add.assoc)

lemma rest11: "rest [a0,a1,a2,a3,a4,a5,a6,a7,a8,a9,a10] 11 =
   (weightedSum [a0,a1,a2,a3,a4,a5,a6,a7,a8,a9] [11,10,9,8,7,6,5,4,3,2] * 10) mod 11 mod 10"
  by (simp add: rest_def slice0_def weightedSum_def eval_nat_numeral add.assoc)

lemma length11: "length xs = 11 \<Longrightarrow> \<exists>a0 a1 a2 a3 a4 a5 a6 a7 a8 a9 a10. xs = [a0,a1,a2,a3,a4,a5,a6,a7,a8,a9,a10]"
  by (auto simp: length_Suc_conv eval_nat_numeral)

lemma validateCPF_explicit:
  assumes "cleanDigits s = [a0,a1,a2,a3,a4,a5,a6,a7,a8,a9,a10]"
  shows "validateCPF s \<longleftrightarrow>
     \<not> (a1 = a0 \<and> a2 = a0 \<and> a3 = a0 \<and> a4 = a0 \<and> a5 = a0 \<and> a6 = a0 \<and> a7 = a0 \<and> a8 = a0 \<and> a9 = a0 \<and> a10 = a0) \<and>
     digitVal a9 = (weightedSum (map digitVal [a0,a1,a2,a3,a4,a5,a6,a7,a8]) [10,9,8,7,6,5,4,3,2] * 10) mod 11 mod 10 \<and>
     digitVal a10 = (weightedSum (map digitVal [a0,a1,a2,a3,a4,a5,a6,a7,a8,a9]) [11,10,9,8,7,6,5,4,3,2] * 10) mod 11 mod 10"
proof -
  have "a0 \<in> set (cleanDigits s)" using assms by simp
  then have d: "isDigit a0" by (rule isDigit_cleanDigits)
  have m: "matchRepeated 10 (cleanDigits s) \<longleftrightarrow>
    (a1 = a0 \<and> a2 = a0 \<and> a3 = a0 \<and> a4 = a0 \<and> a5 = a0 \<and> a6 = a0 \<and> a7 = a0 \<and> a8 = a0 \<and> a9 = a0 \<and> a10 = a0)"
    unfolding assms by (rule matchRepeated_11[OF d])
  have r10: "rest (map digitVal (cleanDigits s)) 10 =
     (weightedSum (map digitVal [a0,a1,a2,a3,a4,a5,a6,a7,a8]) [10,9,8,7,6,5,4,3,2] * 10) mod 11 mod 10"
    unfolding assms list.map by (rule rest10)
  have r11: "rest (map digitVal (cleanDigits s)) 11 =
     (weightedSum (map digitVal [a0,a1,a2,a3,a4,a5,a6,a7,a8,a9]) [11,10,9,8,7,6,5,4,3,2] * 10) mod 11 mod 10"
    unfolding assms list.map by (rule rest11)
  have n9: "map digitVal (cleanDigits s) ! 9 = digitVal a9" 
    and n10: "map digitVal (cleanDigits s) ! 10 = digitVal a10"
    and len: "length (cleanDigits s) = 11"
    unfolding assms by (simp_all add: eval_nat_numeral)
  show ?thesis
    unfolding validateCPF_def Let_def m r10 r11 n9 n10 len
    by (simp add: eq_commute)
qed

lemma validateCPF_checks:
  "validateCPF s \<longleftrightarrow>
     (let c = cleanDigits s; d = map digitVal c
      in length c = 11 \<and> \<not> (\<exists>x. c = replicate 11 x) \<and>
         d ! 9 = (weightedSum (take 9 d) [10,9,8,7,6,5,4,3,2] * 10) mod 11 mod 10 \<and>
         d ! 10 = (weightedSum (take 10 d) [11,10,9,8,7,6,5,4,3,2] * 10) mod 11 mod 10)"
proof (cases "length (cleanDigits s) = 11")
  case False
  then show ?thesis by (simp add: validateCPF_def Let_def)
next
  case True
  then obtain a0 a1 a2 a3 a4 a5 a6 a7 a8 a9 a10
    where c: "cleanDigits s = [a0,a1,a2,a3,a4,a5,a6,a7,a8,a9,a10]"
    using length11[OF True] by (elim exE) (rule that)
  have eq: "(\<exists>x. cleanDigits s = replicate 11 x) \<longleftrightarrow>
     (a1 = a0 \<and> a2 = a0 \<and> a3 = a0 \<and> a4 = a0 \<and> a5 = a0 \<and> a6 = a0 \<and> a7 = a0 \<and> a8 = a0 \<and> a9 = a0 \<and> a10 = a0)"
    unfolding c by (auto simp: eval_nat_numeral)
  have t9: "take 9 (map digitVal (cleanDigits s)) = map digitVal [a0,a1,a2,a3,a4,a5,a6,a7,a8]"
    and t10: "take 10 (map digitVal (cleanDigits s)) = map digitVal [a0,a1,a2,a3,a4,a5,a6,a7,a8,a9]"
    and n9: "map digitVal (cleanDigits s) ! 9 = digitVal a9"
    and n10: "map digitVal (cleanDigits s) ! 10 = digitVal a10"
    by (simp_all add: c eval_nat_numeral)
  show ?thesis
    unfolding validateCPF_explicit[OF c] Let_def eq t9 t10 n9 n10
    by (simp add: True)
qed

text \<open>
  C1. \<open>validateCPF\<close> accepts a string exactly when its digits-only form has 11 digits
  that are not all the same, the 10th digit is \<open>(S1 * 10) mod 11 mod 10\<close> for the sum
  \<open>S1\<close> of the first 9 digits weighted 10 down to 2, and the 11th digit is
  \<open>(S2 * 10) mod 11 mod 10\<close> for the sum \<open>S2\<close> of the first 10 digits weighted 11 down
  to 2. A digits-only form of any other length, the empty string included, is rejected.
  The function is total: it answers with a boolean on every string.
\<close>

theorem validateCPF_iff:
  "(validateCPF s \<longleftrightarrow>
     (let c = cleanDigits s; d = map digitVal c
      in length c = 11 \<and> \<not> (\<exists>x. c = replicate 11 x) \<and>
         d ! 9 = (weightedSum (take 9 d) [10,9,8,7,6,5,4,3,2] * 10) mod 11 mod 10 \<and>
         d ! 10 = (weightedSum (take 10 d) [11,10,9,8,7,6,5,4,3,2] * 10) mod 11 mod 10))
   \<and> (length (cleanDigits s) \<noteq> 11 \<longrightarrow> \<not> validateCPF s)
   \<and> \<not> validateCPF []"
proof -
  have short: "length (cleanDigits s) \<noteq> 11 \<longrightarrow> \<not> validateCPF s"
    by (simp add: validateCPF_def)
  have empty: "\<not> validateCPF []"
    by (simp add: validateCPF_def cleanDigits_def)
  from validateCPF_checks[of s] short empty show ?thesis by blast
qed

theorem validateCPF_iff_witness:
  "validateCPF (str ''529.982.247-25'') \<and> \<not> validateCPF (str ''529.982.247-26'')"
proof -
  have a: "validateCPF (str ''529.982.247-25'')"
    using validateCPF_iff[of "str ''529.982.247-25''"]
    by (simp add: str_def cleanDigits_def isDigit_def digitVal_def weightedSum_def eval_nat_numeral)
  have b: "\<not> validateCPF (str ''529.982.247-26'')"
    using validateCPF_iff[of "str ''529.982.247-26''"]
    by (simp add: str_def cleanDigits_def isDigit_def digitVal_def weightedSum_def eval_nat_numeral)
  from a b show ?thesis by simp
qed

section \<open>Properties of the business identifier\<close>

lemma cnpjLoop_step:
  "1 \<le> i \<Longrightarrow> cnpjLoop numeros tamanho i soma pos =
     cnpjLoop numeros tamanho (i - 1) (soma + digitVal (numeros ! nat (tamanho - i)) * pos)
       (if pos - 1 < 2 then 9 else pos - 1)"
  by (subst cnpjLoop.simps) (simp add: Let_def)

lemma cnpjLoop_stop: "i < 1 \<Longrightarrow> cnpjLoop numeros tamanho i soma pos = soma"
  by (subst cnpjLoop.simps) simp

lemma cnpjLoop12:
  "cnpjLoop [b0,b1,b2,b3,b4,b5,b6,b7,b8,b9,b10,b11] 12 12 0 5 =
     weightedSum (map digitVal [b0,b1,b2,b3,b4,b5,b6,b7,b8,b9,b10,b11]) [5,4,3,2,9,8,7,6,5,4,3,2]"
  by (simp add: cnpjLoop_step cnpjLoop_stop weightedSum_def add.assoc)

lemma cnpjLoop13:
  "cnpjLoop [b0,b1,b2,b3,b4,b5,b6,b7,b8,b9,b10,b11,b12] 13 13 0 6 =
     weightedSum (map digitVal [b0,b1,b2,b3,b4,b5,b6,b7,b8,b9,b10,b11,b12]) [6,5,4,3,2,9,8,7,6,5,4,3,2]"
  by (simp add: cnpjLoop_step cnpjLoop_stop weightedSum_def add.assoc)

lemma length14: "length xs = 14 \<Longrightarrow> \<exists>b0 b1 b2 b3 b4 b5 b6 b7 b8 b9 b10 b11 b12 b13. xs = [b0,b1,b2,b3,b4,b5,b6,b7,b8,b9,b10,b11,b12,b13]"
  by (auto simp: length_Suc_conv eval_nat_numeral)

lemma isDigit_cases: "isDigit c \<longleftrightarrow> c = 48 \<or> c = 49 \<or> c = 50 \<or> c = 51 \<or> c = 52 \<or> c = 53 \<or> c = 54 \<or> c = 55 \<or> c = 56 \<or> c = 57"
  unfolding isDigit_def by arith

lemma replicate14: "replicate 14 x = [x,x,x,x,x,x,x,x,x,x,x,x,x,x]"
  by (simp add: eval_nat_numeral)

lemma degenerate_iff: "c \<in> set degenerateCNPJ \<longleftrightarrow> (\<exists>x. isDigit x \<and> c = replicate 14 x)"
proof
  assume "c \<in> set degenerateCNPJ"
  then have "c \<in> (\<lambda>x. replicate 14 x) ` {48, 49, 50, 51, 52, 53, 54, 55, 56, 57}"
    by (simp add: degenerateCNPJ_def str_def replicate14)
  then obtain x where "x \<in> {48, 49, 50, 51, 52, 53, 54, 55, 56, 57::nat}" "c = replicate 14 x"
    by blast
  moreover from this have "isDigit x" by (simp add: isDigit_cases)
  ultimately show "\<exists>x. isDigit x \<and> c = replicate 14 x" by blast
next
  assume "\<exists>x. isDigit x \<and> c = replicate 14 x"
  then obtain x where x: "isDigit x" "c = replicate 14 x" by blast
  from x(1) have "x = 48 \<or> x = 49 \<or> x = 50 \<or> x = 51 \<or> x = 52 \<or> x = 53 \<or> x = 54 \<or> x = 55 \<or> x = 56 \<or> x = 57"
    by (simp only: isDigit_cases)
  then show "c \<in> set degenerateCNPJ"
    unfolding x(2) replicate14 by (elim disjE) (simp_all add: degenerateCNPJ_def str_def)
qed

lemma validateCNPJ_explicit:
  assumes c: "cleanDigits s = [b0,b1,b2,b3,b4,b5,b6,b7,b8,b9,b10,b11,b12,b13]"
  shows "validateCNPJ s \<longleftrightarrow>
     \<not> (\<exists>x. isDigit x \<and> cleanDigits s = replicate 14 x) \<and>
     digitVal b12 = resultado (weightedSum (map digitVal [b0,b1,b2,b3,b4,b5,b6,b7,b8,b9,b10,b11]) [5,4,3,2,9,8,7,6,5,4,3,2]) \<and>
     digitVal b13 = resultado (weightedSum (map digitVal [b0,b1,b2,b3,b4,b5,b6,b7,b8,b9,b10,b11,b12]) [6,5,4,3,2,9,8,7,6,5,4,3,2])"
proof -
  have len: "length (cleanDigits s) = 14" by (simp add: c)
  have n12: "substring (cleanDigits s) 0 12 = [b0,b1,b2,b3,b4,b5,b6,b7,b8,b9,b10,b11]"
    and n13: "substring (cleanDigits s) 0 13 = [b0,b1,b2,b3,b4,b5,b6,b7,b8,b9,b10,b11,b12]"
    and dg: "substringFrom (cleanDigits s) 12 = [b12, b13]"
    by (simp_all add: c substring_def substringFrom_def eval_nat_numeral)
  show ?thesis
    by (simp add: validateCNPJ_def Let_def len n12 n13 dg cnpjLoop12 cnpjLoop13 degenerate_iff eq_commute)
qed

text \<open>
  C2. \<open>validateCNPJ\<close> accepts a string exactly when its digits-only form has 14
  digits, is none of the ten strings made of one digit repeated 14 times, the 13th digit
  is the check digit of the first 12 digits under the weights 5,4,3,2,9,8,7,6,5,4,3,2, and
  the 14th digit is the check digit of the first 13 digits under the weights
  6,5,4,3,2,9,8,7,6,5,4,3,2; the check digit of a sum is 0 when the sum modulo 11 is below
  2 and 11 minus that remainder otherwise.
\<close>

theorem validateCNPJ_iff:
  "validateCNPJ s \<longleftrightarrow>
     (let c = cleanDigits s; d = map digitVal c;
          r1 = weightedSum (take 12 d) [5,4,3,2,9,8,7,6,5,4,3,2] mod 11;
          d1 = (if r1 < 2 then 0 else 11 - r1);
          r2 = weightedSum (take 13 d) [6,5,4,3,2,9,8,7,6,5,4,3,2] mod 11;
          d2 = (if r2 < 2 then 0 else 11 - r2)
      in length c = 14 \<and> \<not> (\<exists>x. isDigit x \<and> c = replicate 14 x) \<and>
         d ! 12 = d1 \<and> d ! 13 = d2)"
proof (cases "length (cleanDigits s) = 14")
  case False
  then show ?thesis by (simp add: validateCNPJ_def Let_def)
next
  case True
  obtain b0 b1 b2 b3 b4 b5 b6 b7 b8 b9 b10 b11 b12 b13
    where c: "cleanDigits s = [b0,b1,b2,b3,b4,b5,b6,b7,b8,b9,b10,b11,b12,b13]"
    using length14[OF True] by (elim exE) (rule that)
  have t12: "take 12 (map digitVal (cleanDigits s)) = map digitVal [b0,b1,b2,b3,b4,b5,b6,b7,b8,b9,b10,b11]"
    and t13: "take 13 (map digitVal (cleanDigits s)) = map digitVal [b0,b1,b2,b3,b4,b5,b6,b7,b8,b9,b10,b11,b12]"
    and n12: "map digitVal (cleanDigits s) ! 12 = digitVal b12"
    and n13: "map digitVal (cleanDigits s) ! 13 = digitVal b13"
    by (simp_all add: c eval_nat_numeral)
  show ?thesis
    unfolding validateCNPJ_explicit[OF c] Let_def t12 t13 n12 n13 resultado_def
    by (simp add: True)
qed

theorem validateCNPJ_iff_witness:
  "validateCNPJ (str ''11.222.333/0001-81'') \<and> \<not> validateCNPJ (str ''11.222.333/0001-82'')"
proof -
  have a: "validateCNPJ (str ''11.222.333/0001-81'')"
    using validateCNPJ_iff[of "str ''11.222.333/0001-81''"]
    by (simp add: str_def cleanDigits_def isDigit_def digitVal_def weightedSum_def replicate14)
  have b: "\<not> validateCNPJ (str ''11.222.333/0001-82'')"
    using validateCNPJ_iff[of "str ''11.222.333/0001-82''"]
    by (simp add: str_def cleanDigits_def isDigit_def digitVal_def weightedSum_def replicate14)
  from a b show ?thesis by simp
qed

section \<open>Check-digit sensitivity of the individual identifier\<close>

lemma weightedSum_update:
  "i < length ds \<Longrightarrow> i < length ws \<Longrightarrow>
     weightedSum (ds[i := d]) ws = weightedSum ds ws + (d - ds ! i) * ws ! i"
proof (induction ds arbitrary: i ws)
  case Nil
  then show ?case by simp
next
  case (Cons a ds)
  then obtain w ws' where ws: "ws = w # ws'" by (cases ws) auto
  show ?case
  proof (cases i)
    case 0
    then show ?thesis by (simp add: ws weightedSum_def algebra_simps)
  next
    case (Suc j)
    with Cons.prems ws have "j < length ds" "j < length ws'" by auto
    from Cons.IH[OF this] show ?thesis
      by (simp add: ws Suc weightedSum_def)
  qed
qed

lemma multiples_of_11:
  "\<forall>w\<in>set [1..<11]. \<forall>e\<in>set [1..<10]. \<not> (11::nat) dvd 10 * (e * w)"
  by code_simp

lemma not_dvd_11:
  fixes w e :: int
  assumes "1 \<le> w" "w \<le> 10" "e \<noteq> 0" "- 9 \<le> e" "e \<le> 9"
  shows "\<not> 11 dvd 10 * (e * w)"
proof
  assume "11 dvd 10 * (e * w)"
  then have "11 dvd \<bar>10 * (e * w)\<bar>" by simp
  also have "\<bar>10 * (e * w)\<bar> = int (10 * (nat \<bar>e\<bar> * nat w))"
    using assms by (simp add: abs_mult)
  finally have "(11::nat) dvd 10 * (nat \<bar>e\<bar> * nat w)"
    by (metis int_dvd_int_iff of_nat_numeral)
  moreover have "nat w \<in> set [1..<11]" "nat \<bar>e\<bar> \<in> set [1..<10]"
    using assms by auto
  ultimately show False using multiples_of_11 by blast
qed

lemma residue_eq:
  fixes m m' :: int
  assumes r: "0 \<le> m" "m < 11" "0 \<le> m'" "m' < 11"
    and eq: "m mod 10 = m' mod 10" and nz: "m mod 10 \<noteq> 0"
  shows "m = m'"
proof -
  from nz have "m \<noteq> 10" by auto
  with r have a: "m < 10" by linarith
  from nz eq have "m' \<noteq> 10" by auto
  with r have b: "m' < 10" by linarith
  from a b r eq show ?thesis by simp
qed

lemma check_digit_sensitive:
  fixes W e w :: int
  assumes same: "(W * 10) mod 11 mod 10 = ((W + e * w) * 10) mod 11 mod 10"
    and w: "1 \<le> w" "w \<le> 10" and e: "e \<noteq> 0" "- 9 \<le> e" "e \<le> 9"
  shows "(W * 10) mod 11 mod 10 = 0"
proof (rule ccontr)
  assume nz: "(W * 10) mod 11 mod 10 \<noteq> 0"
  have "(W * 10) mod 11 = ((W + e * w) * 10) mod 11"
    by (rule residue_eq[OF _ _ _ _ same nz]) simp_all
  then have "(W * 10) mod 11 = (W * 10 + 10 * (e * w)) mod 11"
    by (simp add: algebra_simps)
  then have "11 dvd (W * 10 + 10 * (e * w)) - W * 10"
    by (metis mod_eq_dvd_iff)
  then have "11 dvd 10 * (e * w)" by simp
  with not_dvd_11[OF w e] show False by simp
qed

lemma cleanDigits_id: "\<forall>c\<in>set s. isDigit c \<Longrightarrow> cleanDigits s = s"
  by (simp add: cleanDigits_def)

lemma digitVal_range: "isDigit c \<Longrightarrow> 0 \<le> digitVal c \<and> digitVal c \<le> 9"
  by (auto simp: isDigit_def digitVal_def)

lemma digitVal_eq_iff: "digitVal x = digitVal y \<longleftrightarrow> x = y"
  by (auto simp: digitVal_def)

lemma weights10_range:
  "i < 9 \<Longrightarrow> 1 \<le> [10,9,8,7,6,5,4,3,2::int] ! i \<and> [10,9,8,7,6,5,4,3,2::int] ! i \<le> 10"
proof -
  assume "i < 9"
  then have "[10,9,8,7,6,5,4,3,2::int] ! i \<in> set [10,9,8,7,6,5,4,3,2]"
    by (intro nth_mem) simp
  then show ?thesis by auto
qed

lemma weights11_range:
  "0 < i \<Longrightarrow> i < 10 \<Longrightarrow>
     1 \<le> [11,10,9,8,7,6,5,4,3,2::int] ! i \<and> [11,10,9,8,7,6,5,4,3,2::int] ! i \<le> 10"
  using weights10_range[of "i - 1"] by (cases i) simp_all

lemma cpf_mutation_rejected:
  assumes len: "length s = 11" and dig: "\<forall>c\<in>set s. isDigit c" and ok: "validateCPF s"
    and i: "i < 11" and x: "isDigit x" and ne: "x \<noteq> s ! i"
    and cond: "9 \<le> i \<or> s ! 9 \<noteq> 48 \<or> (i \<noteq> 0 \<and> s ! 10 \<noteq> 48)"
  shows "\<not> validateCPF (s[i := x])"
proof
  assume ok': "validateCPF (s[i := x])"
  define v where "v = map digitVal s"
  define dx where "dx = digitVal x"
  define e where "e = dx - v ! i"
  define w1 :: "int list" where "w1 = [10,9,8,7,6,5,4,3,2]"
  define w2 :: "int list" where "w2 = [11,10,9,8,7,6,5,4,3,2]"
  have lv: "length v = 11" by (simp add: v_def len)
  have c: "cleanDigits s = s" using dig by (rule cleanDigits_id)
  have "\<forall>c\<in>set (s[i := x]). isDigit c"
    using dig x set_update_subset_insert[of s i x] by auto
  then have c': "cleanDigits (s[i := x]) = s[i := x]" by (rule cleanDigits_id)
  have v': "map digitVal (s[i := x]) = v[i := dx]"
    by (simp add: v_def dx_def map_update)
  from ok have A9: "v ! 9 = (weightedSum (take 9 v) w1 * 10) mod 11 mod 10"
    and A10: "v ! 10 = (weightedSum (take 10 v) w2 * 10) mod 11 mod 10"
    unfolding validateCPF_checks[of s] c Let_def v_def w1_def w2_def by simp_all
  from ok' have B9: "v[i := dx] ! 9 = (weightedSum (take 9 (v[i := dx])) w1 * 10) mod 11 mod 10"
    and B10: "v[i := dx] ! 10 = (weightedSum (take 10 (v[i := dx])) w2 * 10) mod 11 mod 10"
    unfolding validateCPF_checks[of "s[i := x]"] c' Let_def v' w1_def w2_def by simp_all
  have si: "isDigit (s ! i)" using dig i len by simp
  have vi: "v ! i = digitVal (s ! i)" using i len by (simp add: v_def)
  have e: "e \<noteq> 0" "- 9 \<le> e" "e \<le> 9"
    using digitVal_range[OF x] digitVal_range[OF si] ne
    by (auto simp: e_def dx_def vi digitVal_eq_iff)
  have dxe: "dx = v ! i + e" by (simp add: e_def)
  consider "i = 10" | "i = 9" | "i < 9" using i by linarith
  then show False
  proof cases
    case 1
    have n: "v[i := dx] ! 10 = dx" using lv 1 by simp
    have t: "take 10 (v[i := dx]) = take 10 v" using 1 by simp
    have "dx = v ! 10" using B10 unfolding n t A10[symmetric] .
    with e(1) 1 show False by (simp add: e_def)
  next
    case 2
    have n: "v[i := dx] ! 9 = dx" using lv 2 by simp
    have t: "take 9 (v[i := dx]) = take 9 v" using 2 by simp
    have "dx = v ! 9" using B9 unfolding n t A9[symmetric] .
    with e(1) 2 show False by (simp add: e_def)
  next
    case 3
    have n9: "v[i := dx] ! 9 = v ! 9" and n10: "v[i := dx] ! 10 = v ! 10" using 3 by simp_all
    have t9: "take 9 (v[i := dx]) = (take 9 v)[i := dx]"
      and t10: "take 10 (v[i := dx]) = (take 10 v)[i := dx]"
      using 3 by (simp_all add: take_update_swap)
    have W1: "weightedSum ((take 9 v)[i := dx]) w1 = weightedSum (take 9 v) w1 + e * w1 ! i"
      using 3 lv by (subst weightedSum_update) (simp_all add: w1_def e_def)
    have W2: "weightedSum ((take 10 v)[i := dx]) w2 = weightedSum (take 10 v) w2 + e * w2 ! i"
      using 3 lv by (subst weightedSum_update) (simp_all add: w2_def e_def)
    have same1: "(weightedSum (take 9 v) w1 * 10) mod 11 mod 10 =
        ((weightedSum (take 9 v) w1 + e * w1 ! i) * 10) mod 11 mod 10"
      using A9 B9 by (simp only: n9 t9 W1)
    have same2: "(weightedSum (take 10 v) w2 * 10) mod 11 mod 10 =
        ((weightedSum (take 10 v) w2 + e * w2 ! i) * 10) mod 11 mod 10"
      using A10 B10 by (simp only: n10 t10 W2)
    have r1: "1 \<le> w1 ! i" "w1 ! i \<le> 10"
      using weights10_range[OF 3] by (simp_all add: w1_def)
    have "v ! 9 = 0"
      using check_digit_sensitive[OF same1 r1 e] unfolding A9[symmetric] .
    then have "s ! 9 = 48" using len by (simp add: v_def digitVal_def)
    with cond 3 have i0: "0 < i" and s10: "s ! 10 \<noteq> 48" by auto
    have r2: "1 \<le> w2 ! i" "w2 ! i \<le> 10"
      using weights11_range[OF i0] 3 by (simp_all add: w2_def)
    have "v ! 10 = 0"
      using check_digit_sensitive[OF same2 r2 e] unfolding A10[symmetric] .
    then have "s ! 10 = 48" using len by (simp add: v_def digitVal_def)
    with s10 show False by simp
  qed
qed

lemma digitVal_digitChar: "digitVal (digitChar d) = int d"
  by (simp add: digitVal_def digitChar_def)

lemma isDigit_digitChar: "d \<le> 9 \<Longrightarrow> isDigit (digitChar d)"
  by (simp add: isDigit_def digitChar_def)

lemma cpfCheckDigit_range: "0 \<le> cpfCheckDigit ds ws \<and> cpfCheckDigit ds ws \<le> 9"
proof -
  have "0 \<le> cpfCheckDigit ds ws" "cpfCheckDigit ds ws < 10"
    by (simp_all add: cpfCheckDigit_def)
  then show ?thesis by simp
qed

lemma generateCPF_accepted:
  assumes len: "length base = 9" and dig: "\<forall>d\<in>set base. d \<le> 9"
    and nd: "\<not> (\<exists>x. generateCPF base = replicate 11 x)"
  shows "validateCPF (generateCPF base)"
proof -
  define b where "b = map int base"
  define d1 where "d1 = cpfCheckDigit b [10,9,8,7,6,5,4,3,2]"
  define d2 where "d2 = cpfCheckDigit (b @ [d1]) [11,10,9,8,7,6,5,4,3,2]"
  have g: "generateCPF base = map digitChar (base @ [nat d1, nat d2])"
    by (simp add: generateCPF_def Let_def b_def d1_def d2_def)
  have r1: "0 \<le> d1" "d1 \<le> 9" using cpfCheckDigit_range[of b] by (simp_all add: d1_def)
  have r2: "0 \<le> d2" "d2 \<le> 9" using cpfCheckDigit_range[of "b @ [d1]"] by (simp_all add: d2_def)
  have "\<forall>c\<in>set (generateCPF base). isDigit c"
    using dig r1 r2 by (auto simp: g intro!: isDigit_digitChar)
  then have c: "cleanDigits (generateCPF base) = generateCPF base" by (rule cleanDigits_id)
  have lg: "length (generateCPF base) = 11" by (simp add: g len)
  have lb: "length b = 9" by (simp add: b_def len)
  have m: "map digitVal (generateCPF base) = b @ [d1, d2]"
    using r1 r2 by (simp add: g b_def digitVal_digitChar comp_def)
  have n9: "(b @ [d1, d2]) ! 9 = d1" and n10: "(b @ [d1, d2]) ! 10 = d2"
    and t9: "take 9 (b @ [d1, d2]) = b" and t10: "take 10 (b @ [d1, d2]) = b @ [d1]"
    using lb by (simp_all add: nth_append)
  have e1: "d1 = (weightedSum b [10,9,8,7,6,5,4,3,2] * 10) mod 11 mod 10"
    by (simp only: d1_def cpfCheckDigit_def)
  have e2: "d2 = (weightedSum (b @ [d1]) [11,10,9,8,7,6,5,4,3,2] * 10) mod 11 mod 10"
    by (simp only: d2_def cpfCheckDigit_def)
  show ?thesis
    unfolding validateCPF_checks[of "generateCPF base"] c Let_def m n9 n10 t9 t10
    using nd lg e1 e2 by blast
qed

text \<open>
  C3, as amended. An identifier built from 9 base digits and the two check digits computed
  from them is accepted, unless its 11 digits are all the same. Changing one digit of an
  accepted 11-digit identifier to a different digit makes \<open>validateCPF\<close> reject it
  whenever the changed digit is one of the two check digits, or the 10th digit of the
  accepted identifier is not 0, or the changed digit is not the first one and the 11th
  digit is not 0.
\<close>

theorem cpf_generated_accepted_mutation_rejected:
  "(length base = 9 \<and> (\<forall>d\<in>set base. d \<le> 9) \<and> \<not> (\<exists>x. generateCPF base = replicate 11 x)
      \<longrightarrow> validateCPF (generateCPF base)) \<and>
   (length s = 11 \<and> (\<forall>c\<in>set s. isDigit c) \<and> validateCPF s \<and> i < 11 \<and> isDigit x \<and> x \<noteq> s ! i \<and>
    (9 \<le> i \<or> s ! 9 \<noteq> 48 \<or> (i \<noteq> 0 \<and> s ! 10 \<noteq> 48))
      \<longrightarrow> \<not> validateCPF (s[i := x]))"
proof (intro conjI impI)
  assume "length base = 9 \<and> (\<forall>d\<in>set base. d \<le> 9) \<and> \<not> (\<exists>x. generateCPF base = replicate 11 x)"
  then show "validateCPF (generateCPF base)"
    using generateCPF_accepted[of base] by blast
next
  assume "length s = 11 \<and> (\<forall>c\<in>set s. isDigit c) \<and> validateCPF s \<and> i < 11 \<and> isDigit x \<and> x \<noteq> s ! i \<and>
    (9 \<le> i \<or> s ! 9 \<noteq> 48 \<or> (i \<noteq> 0 \<and> s ! 10 \<noteq> 48))"
  then show "\<not> validateCPF (s[i := x])"
    using cpf_mutation_rejected[of s i x] by blast
qed

theorem cpf_generated_accepted_mutation_rejected_witness:
  "generateCPF [5,2,9,9,8,2,2,4,7] = str ''52998224725'' \<and>
   validateCPF (str ''52998224725'') \<and>
   \<not> validateCPF ((str ''52998224725'')[3 := 48])"
proof -
  note T = cpf_generated_accepted_mutation_rejected
    [of "[5,2,9,9,8,2,2,4,7]" "str ''52998224725''" 3 48]
  have g: "generateCPF [5,2,9,9,8,2,2,4,7] = str ''52998224725''"
    by (simp add: generateCPF_def cpfCheckDigit_def weightedSum_def digitChar_def str_def)
  have h1: "length [5,2,9,9,8,2,2,4,7::nat] = 9 \<and> (\<forall>d\<in>set [5,2,9,9,8,2,2,4,7::nat]. d \<le> 9) \<and>
      \<not> (\<exists>x. generateCPF [5,2,9,9,8,2,2,4,7] = replicate 11 x)"
    unfolding g by (simp add: str_def eval_nat_numeral)
  from T h1 have v: "validateCPF (str ''52998224725'')" unfolding g by blast
  have h2: "length (str ''52998224725'') = 11 \<and> (\<forall>c\<in>set (str ''52998224725''). isDigit c) \<and>
      3 < (11::nat) \<and> isDigit 48 \<and> 48 \<noteq> str ''52998224725'' ! 3 \<and>
      (9 \<le> (3::nat) \<or> str ''52998224725'' ! 9 \<noteq> 48 \<or> ((3::nat) \<noteq> 0 \<and> str ''52998224725'' ! 10 \<noteq> 48))"
    by (simp add: str_def isDigit_def eval_nat_numeral)
  from T v h2 have "\<not> validateCPF ((str ''52998224725'')[3 := 48])" by blast
  with g v show ?thesis by blast
qed

text \<open>
  The claim as the specification states it fails: \<open>52601815906\<close> is accepted, and so
  is \<open>62601815906\<close>, which differs from it in the first digit only. The first digit has
  weight 11 in the second sum, so it never changes the second check digit, and it moves
  the first remainder from 10 to 0, both of which give the check digit 0.
\<close>

theorem cpf_single_digit_counterexample:
  "length (str ''52601815906'') = 11 \<and> list_all isDigit (str ''52601815906'') \<and>
   validateCPF (str ''52601815906'') \<and>
   isDigit 54 \<and> 54 \<noteq> str ''52601815906'' ! 0 \<and>
   (str ''52601815906'')[0 := 54] = str ''62601815906'' \<and>
   validateCPF (str ''62601815906'')"
  by (simp add: validateCPF_def str_def cleanDigits_def isDigit_def rest_def slice0_def
      digitVal_def eval_nat_numeral)

section \<open>The validators see the digits only\<close>

lemma cleanDigits_idem: "cleanDigits (cleanDigits s) = cleanDigits s"
  by (simp add: cleanDigits_def)

lemma validateCPF_cong: "cleanDigits s = cleanDigits t \<Longrightarrow> validateCPF s = validateCPF t"
  by (simp add: validateCPF_def)

lemma validateCNPJ_cong: "cleanDigits s = cleanDigits t \<Longrightarrow> validateCNPJ s = validateCNPJ t"
  by (simp add: validateCNPJ_def)

lemma validateDocument_cong:
  "cleanDigits s = cleanDigits t \<Longrightarrow> validateDocument s = validateDocument t"
proof -
  assume e: "cleanDigits s = cleanDigits t"
  have c1: "validateCPF s = validateCPF t" using e by (rule validateCPF_cong)
  have c2: "validateCNPJ s = validateCNPJ t" using e by (rule validateCNPJ_cong)
  show ?thesis unfolding validateDocument_def e c1 c2 by (rule refl)
qed

lemma cleanDigits_punct:
  "\<forall>c\<in>set p. \<not> isDigit c \<Longrightarrow> cleanDigits (a @ p @ b) = cleanDigits (a @ b)"
  by (simp add: cleanDigits_def)

text \<open>
  C9. Each identifier validator gives the same answer on a string and on its digits-only
  form, \<open>validateDocument\<close> field for field, although it hands the raw string to
  \<open>validateCPF\<close> and \<open>validateCNPJ\<close>; so inserting or removing characters that are not
  digits anywhere in the input changes no outcome.
\<close>

theorem validators_depend_on_digits_only:
  "validateCPF s = validateCPF (cleanDigits s) \<and>
   validateCNPJ s = validateCNPJ (cleanDigits s) \<and>
   validateDocument s = validateDocument (cleanDigits s) \<and>
   ((\<forall>c\<in>set p. \<not> isDigit c) \<longrightarrow>
      validateCPF (a @ p @ b) = validateCPF (a @ b) \<and>
      validateCNPJ (a @ p @ b) = validateCNPJ (a @ b) \<and>
      validateDocument (a @ p @ b) = validateDocument (a @ b))"
proof -
  have e: "cleanDigits s = cleanDigits (cleanDigits s)" by (simp add: cleanDigits_idem)
  have "(\<forall>c\<in>set p. \<not> isDigit c) \<longrightarrow> cleanDigits (a @ p @ b) = cleanDigits (a @ b)"
    using cleanDigits_punct by blast
  with validateCPF_cong[OF e] validateCNPJ_cong[OF e] validateDocument_cong[OF e]
    validateCPF_cong[of "a @ p @ b" "a @ b"] validateCNPJ_cong[of "a @ p @ b" "a @ b"]
    validateDocument_cong[of "a @ p @ b" "a @ b"]
  show ?thesis by blast
qed

theorem validators_depend_on_digits_only_witness:
  "validateDocument (str ''529.982.247-25'') = validateDocument (str ''52998224725'') \<and>
   validateCPF (str ''529'' @ str ''.'' @ str ''98224725'') = validateCPF (str ''529'' @ str ''98224725'') \<and>
   validateCPF (str ''52998224725'')"
proof -
  have c: "cleanDigits (str ''529.982.247-25'') = str ''52998224725''"
    by (simp add: cleanDigits_def str_def isDigit_def)
  have h: "\<forall>c\<in>set (str ''.''). \<not> isDigit c"
    by (simp add: str_def isDigit_def)
  have v: "validateCPF (str ''52998224725'')"
    by (simp add: validateCPF_def str_def cleanDigits_def isDigit_def rest_def slice0_def
      digitVal_def eval_nat_numeral)
  from validators_depend_on_digits_only[of "str ''529.982.247-25''" "str ''.''" "str ''529''" "str ''98224725''"]
    h v show ?thesis unfolding c by blast
qed

section \<open>Properties of the identifier classifier\<close>

text \<open>
  C4. When the digits-only form of the input has 11 digits, \<open>validateDocument\<close> reports
  the type CPF and the verdict of \<open>validateCPF\<close> on the input; when it has 14 digits, the
  type CNPJ and the verdict of \<open>validateCNPJ\<close>; for every other length it reports
  invalid, no type, and the message that names the two required lengths. It is total: a
  structured result on every string.
\<close>

theorem validateDocument_classifies:
  "(length (cleanDigits s) = 11 \<longrightarrow>
      type (validateDocument s) = Some CPF \<and> isValid (validateDocument s) = validateCPF s) \<and>
   (length (cleanDigits s) = 14 \<longrightarrow>
      type (validateDocument s) = Some CNPJ \<and> isValid (validateDocument s) = validateCNPJ s) \<and>
   (length (cleanDigits s) \<noteq> 11 \<and> length (cleanDigits s) \<noteq> 14 \<longrightarrow>
      validateDocument s =
        \<lparr>isValid = False,
         message = str ''Documento deve ter 11 d'' @ [237] @ str ''gitos (CPF) ou 14 d''
                   @ [237] @ str ''gitos (CNPJ)'',
         type = None\<rparr>)"
  by (simp add: validateDocument_def Let_def)

theorem validateDocument_classifies_witness:
  "type (validateDocument (str ''123.456.789-09'')) = Some CPF \<and>
   type (validateDocument (str ''11.222.333/0001-81'')) = Some CNPJ \<and>
   type (validateDocument (str ''12345'')) = None \<and>
   \<not> isValid (validateDocument (str ''12345''))"
proof -
  have a: "length (cleanDigits (str ''123.456.789-09'')) = 11"
    and b: "length (cleanDigits (str ''11.222.333/0001-81'')) = 14"
    and c: "length (cleanDigits (str ''12345'')) \<noteq> 11 \<and> length (cleanDigits (str ''12345'')) \<noteq> 14"
    by (simp_all add: cleanDigits_def str_def isDigit_def)
  from validateDocument_classifies[of "str ''123.456.789-09''"] a
  have 1: "type (validateDocument (str ''123.456.789-09'')) = Some CPF" by blast
  from validateDocument_classifies[of "str ''11.222.333/0001-81''"] b
  have 2: "type (validateDocument (str ''11.222.333/0001-81'')) = Some CNPJ" by blast
  from validateDocument_classifies[of "str ''12345''"] c
  have 3: "type (validateDocument (str ''12345'')) = None \<and> \<not> isValid (validateDocument (str ''12345''))"
    by simp
  from 1 2 3 show ?thesis by blast
qed

section \<open>Properties of phone formatting\<close>

lemma findDigits_all:
  "0 < n \<Longrightarrow> length d = n \<Longrightarrow> \<forall>c\<in>set d. isDigit c \<Longrightarrow> findDigits n d = Some ([], d, [])"
  by (cases d) (auto simp: list_all_iff)

lemma replacePhone_all:
  assumes "length d = g1 + g2 + g3" "0 < g1" "\<forall>c\<in>set d. isDigit c"
  shows "replacePhone g1 g2 g3 d =
     str ''('' @ take g1 d @ str '') '' @ take g2 (drop g1 d) @ str ''-'' @ drop (g1 + g2) d"
  using assms by (simp add: replacePhone_def findDigits_all)

text \<open>
  C6. \<open>formatPhone\<close> removes the non-digits; 10 remaining digits are rendered as
  \<open>(DD) DDDD-DDDD\<close>, 11 as \<open>(DD) DDDDD-DDDD\<close>, and for any other count the input comes
  back unchanged. The three examples of the specification are included.
\<close>

theorem formatPhone_spec:
  "formatPhone s =
     (let d = cleanDigits s
      in if length d = 10
         then str ''('' @ take 2 d @ str '') '' @ take 4 (drop 2 d) @ str ''-'' @ drop 6 d
         else if length d = 11
         then str ''('' @ take 2 d @ str '') '' @ take 5 (drop 2 d) @ str ''-'' @ drop 7 d
         else s) \<and>
   formatPhone (str ''11987654321'') = str ''(11) 98765-4321'' \<and>
   formatPhone (str ''1133224455'') = str ''(11) 3322-4455'' \<and>
   formatPhone (str ''123'') = str ''123''"
proof -
  have dig: "\<forall>c\<in>set (cleanDigits s). isDigit c" by (simp add: cleanDigits_def)
  have main: "formatPhone s =
     (let d = cleanDigits s
      in if length d = 10
         then str ''('' @ take 2 d @ str '') '' @ take 4 (drop 2 d) @ str ''-'' @ drop 6 d
         else if length d = 11
         then str ''('' @ take 2 d @ str '') '' @ take 5 (drop 2 d) @ str ''-'' @ drop 7 d
         else s)" for s
  proof -
    have dig: "\<forall>c\<in>set (cleanDigits s). isDigit c" by (simp add: cleanDigits_def)
    have a: "length (cleanDigits s) = 10 \<Longrightarrow> replacePhone 2 4 4 (cleanDigits s) =
       str ''('' @ take 2 (cleanDigits s) @ str '') '' @ take 4 (drop 2 (cleanDigits s)) @ str ''-''
         @ drop 6 (cleanDigits s)"
      using replacePhone_all[of "cleanDigits s" 2 4 4] dig by simp
    have b: "length (cleanDigits s) = 11 \<Longrightarrow> replacePhone 2 5 4 (cleanDigits s) =
       str ''('' @ take 2 (cleanDigits s) @ str '') '' @ take 5 (drop 2 (cleanDigits s)) @ str ''-''
         @ drop 7 (cleanDigits s)"
      using replacePhone_all[of "cleanDigits s" 2 5 4] dig by simp
    show ?thesis
      using a b by (simp add: formatPhone_def Let_def)
  qed
  have e1: "formatPhone (str ''11987654321'') = str ''(11) 98765-4321''"
    unfolding main by (simp add: cleanDigits_def str_def isDigit_def)
  have e2: "formatPhone (str ''1133224455'') = str ''(11) 3322-4455''"
    unfolding main by (simp add: cleanDigits_def str_def isDigit_def)
  have e3: "formatPhone (str ''123'') = str ''123''"
    unfolding main by (simp add: cleanDigits_def str_def isDigit_def)
  from main[of s] e1 e2 e3 show ?thesis by blast
qed

theorem formatPhone_spec_witness:
  "formatPhone (str ''(11) 98765-4321'') = str ''(11) 98765-4321'' \<and>
   formatPhone (str ''+55 11 98765-4321'') = str ''+55 11 98765-4321''"
proof -
  have a: "formatPhone (str ''(11) 98765-4321'') = str ''(11) 98765-4321''"
    using formatPhone_spec[of "str ''(11) 98765-4321''"]
    by (simp add: cleanDigits_def str_def isDigit_def)
  have b: "formatPhone (str ''+55 11 98765-4321'') = str ''+55 11 98765-4321''"
    using formatPhone_spec[of "str ''+55 11 98765-4321''"]
    by (simp add: cleanDigits_def str_def isDigit_def)
  from a b show ?thesis by blast
qed

section \<open>Properties of the number model\<close>

text \<open>The two logarithms are the floors they are meant to be.\<close>

lemma pow2_powi: "pow2 e = 2 powi e"
  by (simp add: pow2_def power_int_def power_one_over inverse_eq_divide)

lemma pow10_powi: "pow10 e = 10 powi e"
  by (simp add: pow10_def power_int_def power_one_over inverse_eq_divide)

lemma quotient_bounds:
  fixes a b :: int and la lb :: int and c :: rat
  assumes c: "0 < c"
    and a: "c powi (la - 1) \<le> of_int a" "of_int a < c powi la"
    and b: "c powi (lb - 1) \<le> of_int b" "of_int b < c powi lb"
  shows "c powi (la - lb - 1) < of_int a / of_int b"
    and "of_int a / of_int b < c powi (la - lb + 1)"
proof -
  have pb: "0 < c powi (lb - 1)" using c by simp
  with b have bp: "(0::rat) < of_int b" by linarith
  have pa: "0 < c powi (la - 1)" using c by simp
  with a have ap: "(0::rat) < of_int a" by linarith
  have "(of_int a :: rat) / of_int b < c powi la / c powi (lb - 1)"
    using a(2) b(1) ap bp pb by (intro frac_less) simp_all
  also have "c powi la / c powi (lb - 1) = c powi (la - (lb - 1))"
    using c by (simp add: power_int_diff)
  also have "la - (lb - 1) = la - lb + 1" by simp
  finally show "of_int a / of_int b < c powi (la - lb + 1)" .
  have "c powi (la - 1) / c powi lb < of_int a / of_int b"
    using a(1) b(2) ap bp pa by (intro frac_less2) simp_all
  moreover have "c powi (la - 1) / c powi lb = c powi (la - 1 - lb)"
    using c by (simp add: power_int_diff)
  moreover have "la - 1 - lb = la - lb - 1" by simp
  ultimately show "c powi (la - lb - 1) < of_int a / of_int b" by simp
qed

lemma bitlen_powi_bounds:
  assumes "0 < a"
  shows "2 powi (bitlen a - 1) \<le> (of_int a :: rat)" "(of_int a :: rat) < 2 powi bitlen a"
proof -
  from assms have l: "1 \<le> bitlen a" by (auto simp: bitlen_alt_def)
  have "(2::int) ^ nat (bitlen a - 1) \<le> a" "a < 2 ^ nat (bitlen a)"
    using bitlen_bounds[OF assms] by simp_all
  then have "(of_int ((2::int) ^ nat (bitlen a - 1)) :: rat) \<le> of_int a"
    "(of_int a :: rat) < of_int ((2::int) ^ nat (bitlen a))"
    by (simp_all only: of_int_le_iff of_int_less_iff)
  then show "2 powi (bitlen a - 1) \<le> (of_int a :: rat)" "(of_int a :: rat) < 2 powi bitlen a"
    using l by (simp_all add: power_int_def)
qed

lemma ilog2_bounds:
  assumes "0 < q"
  shows "pow2 (ilog2 q) \<le> q \<and> q < pow2 (ilog2 q + 1)"
proof -
  obtain a b where ab: "quotient_of q = (a, b)" by (cases "quotient_of q")
  then have bp: "0 < b" by (rule quotient_of_denom_pos)
  have q: "q = of_int a / of_int b" using ab by (rule quotient_of_div)
  with assms bp have ap: "0 < a" by (simp add: zero_less_divide_iff)
  define e where "e = bitlen a - bitlen b"
  have lo: "2 powi (e - 1) < q" and hi: "q < 2 powi (e + 1)"
    using quotient_bounds[OF _ bitlen_powi_bounds[OF ap] bitlen_powi_bounds[OF bp]]
    by (simp_all add: q e_def)
  have i: "ilog2 q = (if pow2 e \<le> q then e else e - 1)"
    by (simp add: ilog2_def ab e_def)
  show ?thesis
  proof (cases "pow2 e \<le> q")
    case True
    with hi i show ?thesis by (simp add: pow2_powi)
  next
    case False
    with lo i show ?thesis by (simp add: pow2_powi)
  qed
qed


lemma floorlog10_powi_bounds:
  assumes "0 < a"
  shows "10 powi (int (floorlog 10 (nat a)) - 1) \<le> (of_int a :: rat)"
    "(of_int a :: rat) < 10 powi int (floorlog 10 (nat a))"
proof -
  define l where "l = floorlog 10 (nat a)"
  from assms have n: "0 < nat a" by simp
  have bnd: "10 ^ (l - 1) \<le> nat a" "nat a < 10 ^ l"
    using floorlog_bounds[OF n, of 10] by (simp_all add: l_def)
  from bnd(2) n have l: "1 \<le> l" by (cases l) simp_all
  from bnd assms have "(10::int) ^ (l - 1) \<le> a" "a < 10 ^ l"
    by (simp_all add: le_nat_iff nat_less_iff)
  then have "(of_int ((10::int) ^ (l - 1)) :: rat) \<le> of_int a"
    "(of_int a :: rat) < of_int ((10::int) ^ l)"
    by (simp_all only: of_int_le_iff of_int_less_iff)
  then show "10 powi (int (floorlog 10 (nat a)) - 1) \<le> (of_int a :: rat)"
    "(of_int a :: rat) < 10 powi int (floorlog 10 (nat a))"
    using l by (simp_all add: power_int_def l_def [symmetric] nat_diff_distrib)
qed

lemma ilog10_bounds:
  assumes "0 < q"
  shows "pow10 (ilog10 q) \<le> q \<and> q < pow10 (ilog10 q + 1)"
proof -
  obtain a b where ab: "quotient_of q = (a, b)" by (cases "quotient_of q")
  then have bp: "0 < b" by (rule quotient_of_denom_pos)
  have q: "q = of_int a / of_int b" using ab by (rule quotient_of_div)
  with assms bp have ap: "0 < a" by (simp add: zero_less_divide_iff)
  define e where "e = int (floorlog 10 (nat a)) - int (floorlog 10 (nat b))"
  have lo: "10 powi (e - 1) < q" and hi: "q < 10 powi (e + 1)"
    using quotient_bounds[OF _ floorlog10_powi_bounds[OF ap] floorlog10_powi_bounds[OF bp]]
    by (simp_all add: q e_def)
  have i: "ilog10 q = (if pow10 e \<le> q then e else e - 1)"
    by (simp add: ilog10_def ab e_def)
  show ?thesis
  proof (cases "pow10 e \<le> q")
    case True
    with hi i show ?thesis by (simp add: pow10_powi)
  next
    case False
    with lo i show ?thesis by (simp add: pow10_powi)
  qed
qed

lemma roundHalfEven_nearest: "\<bar>of_int (roundHalfEven x) - x\<bar> \<le> 1 / 2"
proof -
  define d where "d = x - of_int \<lfloor>x\<rfloor>"
  have d: "0 \<le> d" "d < 1" unfolding d_def by linarith+
  have "of_int (roundHalfEven x) - x =
      (if d < 1 / 2 then - d else if 1 / 2 < d then 1 - d
       else if even \<lfloor>x\<rfloor> then - d else 1 - d)"
    by (simp add: roundHalfEven_def Let_def d_def)
  with d show ?thesis by (simp add: abs_if split: if_splits)
qed

text \<open>
  \<open>round64\<close> rounds to nearest: a finite result is a multiple \<open>m * 2 ^ u\<close> of a power
  of two no smaller than \<open>2 ^ - 1074\<close>, with \<open>m\<close> of at most 53 bits (or \<open>2 ^ 53\<close>
  itself, the next power of two), at most half of \<open>2 ^ u\<close> away from the rational.
\<close>

lemma round64_nearest:
  assumes "0 < q" and "round64 q = Fin r"
  shows "\<exists>m u. r = of_int m * pow2 u \<and> 0 \<le> m \<and> m \<le> 2 ^ 53 \<and> - 1074 \<le> u \<and>
            \<bar>r - q\<bar> \<le> pow2 u / 2"
proof -
  define u where "u = max (ilog2 q) (- 1022) - 52"
  define m where "m = roundHalfEven (q / pow2 u)"
  have pu: "0 < pow2 u" by (simp add: pow2_def)
  from assms have r: "r = of_int m * pow2 u"
    by (simp add: round64_def Let_def u_def m_def split: if_splits)
  have u: "- 1074 \<le> u" by (simp add: u_def)
  have near: "\<bar>of_int m - q / pow2 u\<bar> \<le> 1 / 2"
    unfolding m_def by (rule roundHalfEven_nearest)
  have "r - q = (of_int m - q / pow2 u) * pow2 u"
    using pu by (simp add: r field_simps)
  then have "\<bar>r - q\<bar> = \<bar>of_int m - q / pow2 u\<bar> * \<bar>pow2 u\<bar>"
    by (simp only: abs_mult)
  also have "\<bar>pow2 u\<bar> = pow2 u" using pu by simp
  finally have "\<bar>r - q\<bar> = \<bar>of_int m - q / pow2 u\<bar> * pow2 u" .
  also have "\<dots> \<le> 1 / 2 * pow2 u"
    using near pu by (intro mult_right_mono) simp_all
  finally have d: "\<bar>r - q\<bar> \<le> pow2 u / 2" by simp
  have "q < pow2 (ilog2 q + 1)" using ilog2_bounds[OF assms(1)] by simp
  also have "pow2 (ilog2 q + 1) \<le> pow2 (u + 53)"
    unfolding pow2_powi by (intro power_int_increasing) (simp_all add: u_def)
  also have "pow2 (u + 53) = 2 ^ 53 * pow2 u"
    unfolding pow2_powi by (simp add: power_int_add)
  finally have "q / pow2 u < 2 ^ 53" using pu by (simp add: pos_divide_less_eq)
  then have "q / pow2 u \<le> of_int (2 ^ 53)" by simp
  have m0: "0 \<le> m"
  proof -
    have "0 \<le> q / pow2 u" using assms(1) pu by simp
    then have "0 \<le> \<lfloor>q / pow2 u\<rfloor>" by simp
    then show ?thesis by (simp add: m_def roundHalfEven_def Let_def)
  qed
  have m53: "m \<le> 2 ^ 53"
  proof -
    from \<open>q / pow2 u < 2 ^ 53\<close> have "\<lfloor>q / pow2 u\<rfloor> < 2 ^ 53" by (simp add: floor_less_iff)
    then show ?thesis by (simp add: m_def roundHalfEven_def Let_def)
  qed
  from r m0 m53 u d show ?thesis by blast
qed

text \<open>Integers below \<open>2 ^ 53\<close> are doubles: rounding leaves them as they are.\<close>

lemma roundHalfEven_of_int: "roundHalfEven (of_int k) = k"
  by (simp add: roundHalfEven_def)

lemma bitlen_one: "bitlen 1 = 1"
  by (simp add: bitlen_alt_def)

lemma ilog2_of_int:
  assumes "0 < n"
  shows "ilog2 (of_int n) = bitlen n - 1"
proof -
  from assms have b: "1 \<le> bitlen n" by (auto simp: bitlen_alt_def)
  have "(2::int) ^ nat (bitlen n - 1) \<le> n" using bitlen_bounds[OF assms] by simp
  then have "(of_int ((2::int) ^ nat (bitlen n - 1)) :: rat) \<le> of_int n"
    by (simp only: of_int_le_iff)
  then have "pow2 (bitlen n - 1) \<le> of_int n" using b by (simp add: pow2_def)
  then show ?thesis by (simp add: ilog2_def quotient_of_int bitlen_one)
qed

lemma pow2_nonpos: "e \<le> 0 \<Longrightarrow> pow2 e = 1 / 2 ^ nat (- e)"
  by (cases "e = 0") (simp_all add: pow2_def)

lemma round64_of_int:
  assumes pos: "0 < n" and small: "n < 2 ^ 53"
  shows "round64 (of_int n) = Fin (of_int n)"
proof -
  define e where "e = bitlen n - 1"
  from pos have b: "0 \<le> e" by (auto simp: e_def bitlen_alt_def)
  have "(2::int) ^ nat e \<le> n" using bitlen_bounds[OF pos] by (simp add: e_def)
  with small have "(2::int) ^ nat e < 2 ^ 53" by linarith
  then have "nat e < 53" by (rule power_less_imp_less_exp[rotated]) simp
  then have e52: "e \<le> 52" by simp
  define k where "k = nat (52 - e)"
  have u: "max (ilog2 (of_int n)) (- 1022) - 52 = e - 52"
    using b by (simp add: ilog2_of_int[OF pos] e_def)
  have p: "pow2 (e - 52) = 1 / 2 ^ k"
    using e52 by (simp add: pow2_nonpos k_def)
  have d: "(of_int n :: rat) / pow2 (e - 52) = of_int (n * 2 ^ k)"
    by (simp add: p)
  have r: "of_int (roundHalfEven (of_int n / pow2 (e - 52))) * pow2 (e - 52) = (of_int n :: rat)"
    unfolding d roundHalfEven_of_int by (simp add: p)
  have "(of_int n :: rat) < of_int (2 ^ 53)" using small by (simp only: of_int_less_iff)
  also have "\<dots> \<le> pow2 1024" by (simp add: pow2_def)
  finally have lt: "\<not> pow2 1024 \<le> (of_int n :: rat)" by simp
  have "\<not> (of_int n :: rat) \<le> 0" using pos by simp
  then show ?thesis
    unfolding round64_def Let_def u r using lt by simp
qed

lemma round64_5: "round64 5 = Fin 5"
  using round64_of_int[of 5] by simp

lemma round64_10: "round64 10 = Fin 10"
  using round64_of_int[of 10] by simp

lemma round64_20: "round64 20 = Fin 20"
  using round64_of_int[of 20] by simp

lemma parseFloat_5: "parseFloat (str ''5'') = Fin 5"
  by (simp add: parseFloat_def str_def isWhiteSpace_def unsignedLiteral_def strDecimal_def
      isDigit_def digitsValue_def digitVal_def exponentPart_def pow10_def round64_5)

lemma parseFloat_abc: "parseFloat (str ''abc'') = NaN"
  by (simp add: parseFloat_def str_def isWhiteSpace_def unsignedLiteral_def strDecimal_def
      isDigit_def)

lemma parseFloat_5abc: "parseFloat (str ''5abc'') = Fin 5"
  by (simp add: parseFloat_def str_def isWhiteSpace_def unsignedLiteral_def strDecimal_def
      isDigit_def digitsValue_def digitVal_def exponentPart_def pow10_def round64_5)

lemma ilog10_10: "ilog10 10 = 1"
  by (simp add: ilog10_def pow10_def compute_floorlog)

lemma candidate_10: "candidate 10 2 1 = Some (2, 1)"
  by (simp add: candidate_def pow10_def round64_10 round64_20)

lemma shortest_found:
  "candidate q n0 k = Some (n, s) \<Longrightarrow> fuel \<noteq> 0 \<Longrightarrow> shortest q n0 k fuel = (n, k, s)"
  by (cases fuel) simp_all

lemma shortest_10: "shortest 10 (ilog10 10 + 1) 1 17 = (2, 1, 1)"
  using shortest_found[OF candidate_10, of 17] by (simp add: ilog10_10)

lemma positiveToString_10: "positiveToString 10 = str ''10''"
  unfolding positiveToString_def shortest_10
  by (simp add: decimal.simps str_def)

lemma numberToString_10: "numberToString (Fin 10) = str ''10''"
  by (simp add: numberToString_def positiveToString_10)

section \<open>Characters after a numeral\<close>

lemma takeWhile_digit_free: "\<forall>c\<in>set t. \<not> isDigit c \<Longrightarrow> takeWhile isDigit t = []"
  by (cases t) auto

lemma dropWhile_digit_free: "\<forall>c\<in>set t. \<not> isDigit c \<Longrightarrow> dropWhile isDigit t = t"
  by (cases t) auto

lemma takeWhile_digit_append:
  "\<forall>c\<in>set t. \<not> isDigit c \<Longrightarrow> takeWhile isDigit (u @ t) = takeWhile isDigit u"
  by (induction u) (simp_all add: takeWhile_digit_free)

lemma dropWhile_digit_append:
  "\<forall>c\<in>set t. \<not> isDigit c \<Longrightarrow> dropWhile isDigit (u @ t) = dropWhile isDigit u @ t"
  by (induction u) (simp_all add: dropWhile_digit_free)

lemma signedDigits_digit_free: "\<forall>c\<in>set t. \<not> isDigit c \<Longrightarrow> signedDigits t = None"
proof (cases t)
  case Nil
  then show ?thesis by (simp add: signedDigits_def)
next
  case (Cons c cs)
  assume "\<forall>c\<in>set t. \<not> isDigit c"
  with Cons have "takeWhile isDigit cs = []" "takeWhile isDigit (c # cs) = []"
    by (simp_all add: takeWhile_digit_free)
  then show ?thesis unfolding Cons signedDigits_def by (simp split: if_splits)
qed

lemma signedDigits_append:
  assumes t: "\<forall>c\<in>set t. \<not> isDigit c"
  shows "signedDigits (r @ t) = signedDigits r"
proof (cases r)
  case Nil
  then show ?thesis using signedDigits_digit_free[OF t] by (simp add: signedDigits_def)
next
  case (Cons c cs)
  have "takeWhile isDigit (cs @ t) = takeWhile isDigit cs"
    "takeWhile isDigit (c # cs @ t) = takeWhile isDigit (c # cs)"
    using takeWhile_digit_append[OF t, of cs] takeWhile_digit_append[OF t, of "c # cs"] by simp_all
  then show ?thesis unfolding Cons signedDigits_def by (simp del: takeWhile.simps)
qed

lemma exponentPart_digit_free: "\<forall>c\<in>set t. \<not> isDigit c \<Longrightarrow> exponentPart t = 0"
  by (cases t) (simp_all add: exponentPart_def signedDigits_digit_free)

lemma exponentPart_append:
  assumes t: "\<forall>c\<in>set t. \<not> isDigit c"
  shows "exponentPart (r @ t) = exponentPart r"
proof (cases r)
  case Nil
  then show ?thesis using exponentPart_digit_free[OF t] by (simp add: exponentPart_def)
next
  case (Cons c cs)
  then show ?thesis by (simp add: exponentPart_def signedDigits_append[OF t])
qed

lemma strDecimal_append:
  assumes t: "\<forall>c\<in>set t. \<not> isDigit c"
  shows "strDecimal (u @ t) = strDecimal u"
proof (cases "dropWhile isDigit u")
  case Nil
  have r1: "dropWhile isDigit (u @ t) = t"
    using dropWhile_digit_append[OF t, of u] Nil by simp
  show ?thesis
  proof (cases t)
    case Nil
    then show ?thesis by simp
  next
    case (Cons c cs)
    with t have cs: "\<forall>c\<in>set cs. \<not> isDigit c" by simp
    have e: "exponentPart cs = 0" "exponentPart (c # cs) = 0" "exponentPart [] = 0"
      using exponentPart_digit_free[OF cs] exponentPart_digit_free[OF t] Cons
      by (simp_all add: exponentPart_def)
    show ?thesis
      unfolding strDecimal_def takeWhile_digit_append[OF t] r1 Nil
      by (simp add: Cons Let_def takeWhile_digit_free[OF cs] dropWhile_digit_free[OF cs] e)
  qed
next
  case (Cons c cs)
  have r1: "dropWhile isDigit (u @ t) = c # cs @ t"
    using dropWhile_digit_append[OF t, of u] Cons by simp
  show ?thesis
    unfolding strDecimal_def takeWhile_digit_append[OF t] r1 Cons
    by (simp add: Let_def takeWhile_digit_append[OF t] dropWhile_digit_append[OF t]
        exponentPart_append[OF t] exponentPart_append[OF t, of "c # cs", simplified])
qed

lemma unsignedLiteral_append:
  assumes t: "\<forall>c\<in>set t. \<not> isDigit c" and n: "unsignedLiteral u \<noteq> NaN"
  shows "unsignedLiteral (u @ t) = unsignedLiteral u"
proof (cases "take 8 u = str ''Infinity''")
  case True
  then have "length (take 8 u) = 8" by (simp add: str_def)
  then have "8 \<le> length u" by simp
  then have "take 8 (u @ t) = take 8 u" by simp
  with True show ?thesis by (simp add: unsignedLiteral_def)
next
  case False
  have "take 8 (u @ t) \<noteq> str ''Infinity''"
  proof
    assume inf: "take 8 (u @ t) = str ''Infinity''"
    have "strDecimal u = None"
    proof (cases u)
      case Nil
      then show ?thesis by (simp add: strDecimal_def)
    next
      case (Cons c cs)
      with inf have "c = 73" by (simp add: str_def)
      then show ?thesis by (simp add: Cons strDecimal_def isDigit_def)
    qed
    with False n show False by (simp add: unsignedLiteral_def)
  qed
  with False show ?thesis by (simp add: unsignedLiteral_def strDecimal_append[OF t])
qed

lemma negate_NaN: "negate x = NaN \<longleftrightarrow> x = NaN"
  by (cases x) (simp_all add: negate_def)

lemma parseFloat_append:
  assumes t: "\<forall>c\<in>set t. \<not> isDigit c" and n: "parseFloat v \<noteq> NaN"
  shows "parseFloat (v @ t) = parseFloat v"
proof (cases "dropWhile isWhiteSpace v")
  case Nil
  with n show ?thesis by (simp add: parseFloat_def)
next
  case (Cons c cs)
  then have "dropWhile isWhiteSpace v \<noteq> []" by simp
  then obtain x where "x \<in> set v" "\<not> isWhiteSpace x"
    by auto
  then have d: "dropWhile isWhiteSpace (v @ t) = c # (cs @ t)"
    using Cons by simp
  from n Cons have "(c = 45 \<longrightarrow> unsignedLiteral cs \<noteq> NaN) \<and>
      (c = 43 \<longrightarrow> unsignedLiteral cs \<noteq> NaN) \<and>
      (c \<noteq> 45 \<and> c \<noteq> 43 \<longrightarrow> unsignedLiteral (c # cs) \<noteq> NaN)"
    by (auto simp: parseFloat_def negate_NaN)
  then show ?thesis
    using unsignedLiteral_append[OF t, of cs] unsignedLiteral_append[OF t, of "c # cs"]
    by (auto simp: parseFloat_def d Cons)
qed

lemma validateNumber_append:
  assumes t: "\<forall>c\<in>set t. \<not> isDigit c" and ok: "isValid (validateNumber v a b)"
  shows "validateNumber (v @ t) a b = validateNumber v a b"
proof -
  from ok have "parseFloat v \<noteq> NaN"
    by (auto simp: validateNumber_def Let_def isNaN_def split: if_splits)
  then have "parseFloat (v @ t) = parseFloat v" by (rule parseFloat_append[OF t])
  then show ?thesis by (simp add: validateNumber_def)
qed

section \<open>Properties of currency validity\<close>

lemma pow2_pos: "0 < pow2 e"
  by (simp add: pow2_def)

lemma roundHalfEven_nonneg: "0 \<le> q \<Longrightarrow> 0 \<le> roundHalfEven q"
proof -
  assume "0 \<le> q"
  then have "0 \<le> \<lfloor>q\<rfloor>" by simp
  then show ?thesis by (simp add: roundHalfEven_def Let_def)
qed

lemma round64_cases: "round64 q = PosInf \<or> (\<exists>r\<ge>0. round64 q = Fin r)"
proof (cases "q \<le> 0")
  case True
  then show ?thesis by (simp add: round64_def)
next
  case False
  define u where "u = max (ilog2 q) (- 1022) - 52"
  from False have "0 \<le> q / pow2 u" using pow2_pos[of u] by simp
  then have "0 \<le> roundHalfEven (q / pow2 u)" by (rule roundHalfEven_nonneg)
  then have "0 \<le> (of_int (roundHalfEven (q / pow2 u)) :: rat) * pow2 u"
    using pow2_pos[of u] by simp
  then show ?thesis using False by (simp add: round64_def Let_def u_def)
qed

lemma unsignedLiteral_cases:
  "unsignedLiteral u = NaN \<or> unsignedLiteral u = PosInf \<or> (\<exists>r\<ge>0. unsignedLiteral u = Fin r)"
  using round64_cases by (auto simp: unsignedLiteral_def split: option.splits)

lemma replaceFirst_commaToDot: "replaceFirst 44 46 s = commaToDot s"
  by (induction s) (simp_all add: commaToDot_def)

lemma isDigit_set: "isDigit c \<longleftrightarrow> c \<in> set (str ''0123456789'')"
proof -
  have "isDigit c \<longleftrightarrow> c \<in> {48..<58}" by (auto simp: isDigit_def)
  also have "{48..<58::nat} = set [48..<58]" by (simp only: set_upt)
  also have "[48..<58] = str ''0123456789''" by (simp add: str_def upt_rec)
  finally show ?thesis .
qed

lemma stripCurrency_filter:
  "filter (\<lambda>c. isDigit c \<or> c = 46 \<or> c = 44) s = stripCurrency s"
proof -
  have "(isDigit c \<or> c = 46 \<or> c = 44) = (c \<in> set (str ''0123456789.,''))" for c
    unfolding isDigit_set by (auto simp: str_def)
  then show ?thesis by (simp add: stripCurrency_def)
qed

lemma validateCurrency_parses:
  "validateCurrency v \<longleftrightarrow> parsesNonNegative (commaToDot (stripCurrency v))"
  unfolding validateCurrency_def Let_def stripCurrency_filter replaceFirst_commaToDot
    parsesNonNegative_def
  by (cases "parseFloat (commaToDot (stripCurrency v))") (simp_all add: isNaN_def js_ge_def not_less)

text \<open>
  What parses: after the stripping only digits, dots and commas are left, so the input is
  valid exactly when what is left starts with a digit, or with a dot or comma followed by
  a digit.
\<close>

lemma strDecimal_None_iff:
  "strDecimal (c # cs) = None \<longleftrightarrow>
     \<not> (isDigit c \<or> (c = 46 \<and> (case cs of [] \<Rightarrow> False | d # ds \<Rightarrow> isDigit d)))"
proof (cases "isDigit c")
  case True
  then show ?thesis by (simp add: strDecimal_def Let_def split: prod.splits)
next
  case False
  then have "c = 46 \<Longrightarrow> (takeWhile isDigit cs = []) = (\<not> (case cs of [] \<Rightarrow> False | d # ds \<Rightarrow> isDigit d))"
    by (cases cs) simp_all
  with False show ?thesis by (simp add: strDecimal_def Let_def)
qed

lemma parsesNonNegative_leading:
  assumes "isDigit c \<or> c = 46 \<or> c = 44"
  shows "parsesNonNegative (c # cs) \<longleftrightarrow>
     isDigit c \<or> (c = 46 \<and> (case cs of [] \<Rightarrow> False | d # ds \<Rightarrow> isDigit d))"
proof -
  from assms have c: "\<not> isWhiteSpace c" "c \<noteq> 45" "c \<noteq> 43" "c \<noteq> 73"
    by (auto simp: isDigit_def isWhiteSpace_def)
  from c(4) have i: "take 8 (c # cs) \<noteq> str ''Infinity''" by (auto simp: str_def)
  have p: "parseFloat (c # cs) = unsignedLiteral (c # cs)"
    using c by (simp add: parseFloat_def)
  show ?thesis
  proof (cases "strDecimal (c # cs)")
    case None
    then have "parseFloat (c # cs) = NaN" using i by (simp add: p unsignedLiteral_def)
    with None show ?thesis
      using strDecimal_None_iff[of c cs] by (simp add: parsesNonNegative_def)
  next
    case (Some me)
    then have "strDecimal (c # cs) \<noteq> None" by simp
    then have l: "isDigit c \<or> (c = 46 \<and> (case cs of [] \<Rightarrow> False | d # ds \<Rightarrow> isDigit d))"
      using strDecimal_None_iff[of c cs] by simp
    obtain m e where me: "me = (m, e)" by (cases me)
    have "parseFloat (c # cs) = round64 (of_nat m * pow10 e)"
      using Some i by (simp add: p unsignedLiteral_def me)
    with round64_cases[of "of_nat m * pow10 e"] have "parsesNonNegative (c # cs)"
      by (auto simp: parsesNonNegative_def)
    with l show ?thesis by simp
  qed
qed

lemma set_commaToDot: "set (commaToDot s) \<subseteq> insert 46 (set s)"
proof -
  have "set (replaceFirst 44 46 s) \<subseteq> insert 46 (set s)"
    by (induction s) auto
  then show ?thesis by (simp add: replaceFirst_commaToDot)
qed

lemma validateCurrency_leading_digit:
  "validateCurrency v \<longleftrightarrow>
     (case commaToDot (stripCurrency v) of
        [] \<Rightarrow> False
      | c # cs \<Rightarrow> isDigit c \<or> (c = 46 \<and> (case cs of [] \<Rightarrow> False | d # ds \<Rightarrow> isDigit d)))"
proof (cases "commaToDot (stripCurrency v)")
  case Nil
  then show ?thesis by (simp add: validateCurrency_parses parsesNonNegative_def parseFloat_def)
next
  case (Cons c cs)
  then have "c \<in> insert 46 (set (stripCurrency v))"
    using set_commaToDot[of "stripCurrency v"] by auto
  then have "isDigit c \<or> c = 46 \<or> c = 44"
    by (auto simp: stripCurrency_filter[symmetric])
  from parsesNonNegative_leading[OF this, of cs] show ?thesis
    by (simp add: validateCurrency_parses Cons)
qed

text \<open>
  C7. \<open>validateCurrency\<close> is true exactly when the input, stripped of every character
  other than digits, \<open>.\<close> and \<open>,\<close> and with its first comma turned into a dot,
  parses as a non-negative number. It is total: a boolean on every string.
\<close>

theorem validateCurrency_spec:
  "validateCurrency v \<longleftrightarrow> parsesNonNegative (commaToDot (stripCurrency v))"
  by (rule validateCurrency_parses)

theorem validateCurrency_spec_witness:
  "validateCurrency (str ''R$ 5,00'') \<and> \<not> validateCurrency (str ''abc'')"
proof -
  have s1: "commaToDot (stripCurrency (str ''R$ 5,00'')) = str ''5.00''"
    by (simp add: commaToDot_def stripCurrency_def str_def)
  have s2: "commaToDot (stripCurrency (str ''abc'')) = []"
    by (simp add: commaToDot_def stripCurrency_def str_def)
  have p1: "parseFloat (str ''5.00'') = Fin 5"
    by (simp add: parseFloat_def str_def isWhiteSpace_def unsignedLiteral_def strDecimal_def
      isDigit_def digitsValue_def digitVal_def exponentPart_def pow10_def round64_5)
  have p2: "parseFloat [] = NaN" by (simp add: parseFloat_def)
  have a: "validateCurrency (str ''R$ 5,00'')"
    using validateCurrency_spec[of "str ''R$ 5,00''"] unfolding s1
    by (simp add: parsesNonNegative_def p1)
  have b: "\<not> validateCurrency (str ''abc'')"
    using validateCurrency_spec[of "str ''abc''"] unfolding s2
    by (simp add: parsesNonNegative_def p2)
  from a b show ?thesis by blast
qed

section \<open>Properties of the numeric field validator\<close>

lemma validateNumber_NaN:
  "parseFloat v = NaN \<Longrightarrow> validateNumber v minArg maxArg =
     \<lparr>isValid = False,
      message = str ''Valor deve ser um n'' @ [250] @ str ''mero v'' @ [225] @ str ''lido''\<rparr>"
  by (simp add: validateNumber_def isNaN_def)

lemma validateNumber_below:
  "parseFloat v \<noteq> NaN \<Longrightarrow> js_lt (parseFloat v) (case minArg of None \<Rightarrow> Fin 0 | Some x \<Rightarrow> x) \<Longrightarrow>
   validateNumber v minArg maxArg =
     \<lparr>isValid = False,
      message = str ''Valor m'' @ [237] @ str ''nimo '' @ [233] @ str '' ''
                @ numberToString (case minArg of None \<Rightarrow> Fin 0 | Some x \<Rightarrow> x)\<rparr>"
  by (simp add: validateNumber_def isNaN_def)

lemma validateNumber_above:
  "parseFloat v \<noteq> NaN \<Longrightarrow> \<not> js_lt (parseFloat v) (case minArg of None \<Rightarrow> Fin 0 | Some x \<Rightarrow> x) \<Longrightarrow>
   maxArg = Some M \<Longrightarrow> js_gt (parseFloat v) M \<Longrightarrow>
   validateNumber v minArg maxArg =
     \<lparr>isValid = False,
      message = str ''Valor m'' @ [225] @ str ''ximo '' @ [233] @ str '' '' @ numberToString M\<rparr>"
  by (simp add: validateNumber_def isNaN_def)

lemma validateNumber_valid:
  "parseFloat v \<noteq> NaN \<Longrightarrow> \<not> js_lt (parseFloat v) (case minArg of None \<Rightarrow> Fin 0 | Some x \<Rightarrow> x) \<Longrightarrow>
   (\<forall>M. maxArg = Some M \<longrightarrow> \<not> js_gt (parseFloat v) M) \<Longrightarrow>
   validateNumber v minArg maxArg = \<lparr>isValid = True, message = []\<rparr>"
  by (cases maxArg) (simp_all add: validateNumber_def isNaN_def)

lemma str_space_10: "str '' '' @ str ''10'' = str '' 10''"
  by (simp add: str_def)

text \<open>
  C5. With \<open>m\<close> the minimum (0 when left out) and \<open>n\<close> the number \<open>parseFloat\<close>
  reads from the input: when \<open>n\<close> is NaN the result is invalid with the message that the
  value must be a valid number; otherwise, when \<open>n\<close> is strictly below \<open>m\<close>, invalid
  with the message citing \<open>m\<close>; otherwise, when a maximum \<open>M\<close> is given and \<open>n\<close>
  strictly exceeds it, invalid with the message citing \<open>M\<close>; otherwise valid with the
  empty message. The three examples of the specification are included.
\<close>

theorem validateNumber_spec:
  "(let m = (case minArg of None \<Rightarrow> Fin 0 | Some x \<Rightarrow> x); n = parseFloat v
    in (n = NaN \<longrightarrow>
          validateNumber v minArg maxArg =
            \<lparr>isValid = False,
             message = str ''Valor deve ser um n'' @ [250] @ str ''mero v'' @ [225] @ str ''lido''\<rparr>) \<and>
       (n \<noteq> NaN \<and> js_lt n m \<longrightarrow>
          validateNumber v minArg maxArg =
            \<lparr>isValid = False,
             message = str ''Valor m'' @ [237] @ str ''nimo '' @ [233] @ str '' ''
                       @ numberToString m\<rparr>) \<and>
       (\<forall>M. n \<noteq> NaN \<and> \<not> js_lt n m \<and> maxArg = Some M \<and> js_gt n M \<longrightarrow>
          validateNumber v minArg maxArg =
            \<lparr>isValid = False,
             message = str ''Valor m'' @ [225] @ str ''ximo '' @ [233] @ str '' ''
                       @ numberToString M\<rparr>) \<and>
       (n \<noteq> NaN \<and> \<not> js_lt n m \<and> (\<forall>M. maxArg = Some M \<longrightarrow> \<not> js_gt n M) \<longrightarrow>
          validateNumber v minArg maxArg = \<lparr>isValid = True, message = []\<rparr>)) \<and>
   validateNumber (str ''5'') (Some (Fin 10)) None =
     \<lparr>isValid = False,
      message = str ''Valor m'' @ [237] @ str ''nimo '' @ [233] @ str '' 10''\<rparr> \<and>
   \<not> isValid (validateNumber (str ''abc'') None None) \<and>
   validateNumber (str ''5'') None None = \<lparr>isValid = True, message = []\<rparr>"
proof -
  have e1: "validateNumber (str ''5'') (Some (Fin 10)) None =
     \<lparr>isValid = False,
      message = str ''Valor m'' @ [237] @ str ''nimo '' @ [233] @ str '' 10''\<rparr>"
    using validateNumber_below[of "str ''5''" "Some (Fin 10)" None]
    by (simp add: parseFloat_5 numberToString_10 str_space_10)
  have e2: "\<not> isValid (validateNumber (str ''abc'') None None)"
    by (simp add: validateNumber_NaN[OF parseFloat_abc])
  have e3: "validateNumber (str ''5'') None None = \<lparr>isValid = True, message = []\<rparr>"
    using validateNumber_valid[of "str ''5''" None None] by (simp add: parseFloat_5)
  show ?thesis
    unfolding Let_def
    using validateNumber_NaN[of v minArg maxArg] validateNumber_below[of v minArg maxArg]
      validateNumber_above[of v minArg maxArg] validateNumber_valid[of v minArg maxArg] e1 e2 e3
    by blast
qed

lemma parseFloat_50: "parseFloat (str ''50'') = Fin 50"
  using round64_of_int[of 50]
  by (simp add: parseFloat_def str_def isWhiteSpace_def unsignedLiteral_def strDecimal_def
      isDigit_def digitsValue_def digitVal_def exponentPart_def pow10_def)

theorem validateNumber_spec_witness:
  "validateNumber (str ''50'') None (Some (Fin 10)) =
     \<lparr>isValid = False,
      message = str ''Valor m'' @ [225] @ str ''ximo '' @ [233] @ str '' 10''\<rparr> \<and>
   validateNumber (str ''50'') None (Some (Fin 100)) = \<lparr>isValid = True, message = []\<rparr> \<and>
   validateNumber (str ''x'') None None =
     \<lparr>isValid = False,
      message = str ''Valor deve ser um n'' @ [250] @ str ''mero v'' @ [225] @ str ''lido''\<rparr>"
proof -
  have px: "parseFloat (str ''x'') = NaN"
    by (simp add: parseFloat_def str_def isWhiteSpace_def unsignedLiteral_def strDecimal_def
      isDigit_def)
  have a: "validateNumber (str ''50'') None (Some (Fin 10)) =
     \<lparr>isValid = False,
      message = str ''Valor m'' @ [225] @ str ''ximo '' @ [233] @ str '' 10''\<rparr>"
    using validateNumber_spec[where v = "str ''50''" and minArg = None and maxArg = "Some (Fin 10)"]
    by (simp add: parseFloat_50 js_gt_def numberToString_10 str_space_10)
  have b: "validateNumber (str ''50'') None (Some (Fin 100)) = \<lparr>isValid = True, message = []\<rparr>"
    using validateNumber_spec[where v = "str ''50''" and minArg = None and maxArg = "Some (Fin 100)"]
    by (simp add: parseFloat_50 js_gt_def)
  have c: "validateNumber (str ''x'') None None =
     \<lparr>isValid = False,
      message = str ''Valor deve ser um n'' @ [250] @ str ''mero v'' @ [225] @ str ''lido''\<rparr>"
    using validateNumber_spec[where v = "str ''x''" and minArg = None and maxArg = None]
    by (simp add: px)
  from a b c show ?thesis by blast
qed

text \<open>
  C10. \<open>validateNumber\<close> reads the longest prefix that is a numeral: \<open>5abc\<close> is read
  as \<open>5\<close> is and is valid under the default bounds, with the empty message; and
  appending characters that are not digits to a valid input never changes the result,
  whatever the bounds.
\<close>

theorem validateNumber_prefix:
  "validateNumber (str ''5abc'') None None = \<lparr>isValid = True, message = []\<rparr> \<and>
   parseFloat (str ''5abc'') = parseFloat (str ''5'') \<and>
   ((\<forall>c\<in>set t. \<not> isDigit c) \<and> isValid (validateNumber v minArg maxArg) \<longrightarrow>
      validateNumber (v @ t) minArg maxArg = validateNumber v minArg maxArg)"
proof -
  have "validateNumber (str ''5abc'') None None = \<lparr>isValid = True, message = []\<rparr>"
    using validateNumber_valid[of "str ''5abc''" None None] by (simp add: parseFloat_5abc)
  moreover have "parseFloat (str ''5abc'') = parseFloat (str ''5'')"
    by (simp only: parseFloat_5abc parseFloat_5)
  ultimately show ?thesis using validateNumber_append[of t v minArg maxArg] by blast
qed

theorem validateNumber_prefix_witness:
  "validateNumber (str ''50'' @ str '' kg'') None (Some (Fin 100)) =
     \<lparr>isValid = True, message = []\<rparr>"
proof -
  have h: "\<forall>c\<in>set (str '' kg''). \<not> isDigit c" by (simp add: str_def isDigit_def)
  have v: "validateNumber (str ''50'') None (Some (Fin 100)) = \<lparr>isValid = True, message = []\<rparr>"
    using validateNumber_valid[of "str ''50''" None "Some (Fin 100)"]
    by (simp add: parseFloat_50 js_gt_def)
  then have "isValid (validateNumber (str ''50'') None (Some (Fin 100)))" by simp
  with validateNumber_prefix[where t = "str '' kg''" and v = "str ''50''" and minArg = None
      and maxArg = "Some (Fin 100)"] h v
  show ?thesis by simp
qed

section \<open>The message invariant\<close>

text \<open>
  C8. For \<open>validateRequired\<close> and \<open>validateNumber\<close> the message is empty exactly when
  the result is valid. For \<open>validateDocument\<close> the message is non-empty when the result
  is invalid, and when it is valid the message is the confirmation \<open>CPF valido\<close> or
  \<open>CNPJ valido\<close>, each with its accented letter (code unit 225).
\<close>

theorem message_empty_iff_valid:
  "(isValid (validateRequired v fieldName) \<longleftrightarrow> message (validateRequired v fieldName) = []) \<and>
   (isValid (validateNumber v minArg maxArg) \<longleftrightarrow> message (validateNumber v minArg maxArg) = []) \<and>
   (\<not> isValid (validateDocument s) \<longrightarrow> message (validateDocument s) \<noteq> []) \<and>
   (isValid (validateDocument s) \<longrightarrow>
      message (validateDocument s) = str ''CPF v'' @ [225] @ str ''lido'' \<or>
      message (validateDocument s) = str ''CNPJ v'' @ [225] @ str ''lido'')"
proof -
  have r: "isValid (validateRequired v fieldName) \<longleftrightarrow> message (validateRequired v fieldName) = []"
    by (simp add: validateRequired_def Let_def str_def)
  have n: "isValid (validateNumber v minArg maxArg) \<longleftrightarrow> message (validateNumber v minArg maxArg) = []"
    by (cases maxArg) (simp_all add: validateNumber_def Let_def str_def)
  have d1: "\<not> isValid (validateDocument s) \<longrightarrow> message (validateDocument s) \<noteq> []"
    by (simp add: validateDocument_def Let_def str_def)
  have d2: "isValid (validateDocument s) \<longrightarrow>
      message (validateDocument s) = str ''CPF v'' @ [225] @ str ''lido'' \<or>
      message (validateDocument s) = str ''CNPJ v'' @ [225] @ str ''lido''"
    by (simp add: validateDocument_def Let_def)
  from r n d1 d2 show ?thesis by blast
qed

theorem message_empty_iff_valid_witness:
  "message (validateRequired (str ''   '') (str ''Name'')) \<noteq> [] \<and>
   message (validateRequired (str ''x'') (str ''Name'')) = [] \<and>
   message (validateDocument (str ''12345'')) \<noteq> [] \<and>
   message (validateDocument (str ''529.982.247-25'')) = str ''CPF v'' @ [225] @ str ''lido''"
proof -
  have a: "\<not> isValid (validateRequired (str ''   '') (str ''Name''))"
    by (simp add: validateRequired_def trim_def str_def isWhiteSpace_def)
  have b: "isValid (validateRequired (str ''x'') (str ''Name''))"
    by (simp add: validateRequired_def trim_def str_def isWhiteSpace_def)
  have c: "\<not> isValid (validateDocument (str ''12345''))"
    by (simp add: validateDocument_def cleanDigits_def str_def isDigit_def)
  have v: "validateCPF (str ''529.982.247-25'')"
    by (simp add: validateCPF_def str_def cleanDigits_def isDigit_def rest_def slice0_def
      digitVal_def eval_nat_numeral)
  have l: "length (cleanDigits (str ''529.982.247-25'')) = 11"
    by (simp add: cleanDigits_def str_def isDigit_def)
  have d: "isValid (validateDocument (str ''529.982.247-25''))"
    and t: "message (validateDocument (str ''529.982.247-25'')) \<noteq> str ''CNPJ v'' @ [225] @ str ''lido''"
    using v l by (simp_all add: validateDocument_def Let_def str_def)
  from message_empty_iff_valid[where v = "str ''   ''" and fieldName = "str ''Name''"
      and s = "str ''12345''"] a c
  have 1: "message (validateRequired (str ''   '') (str ''Name'')) \<noteq> []"
    and 3: "message (validateDocument (str ''12345'')) \<noteq> []" by blast+
  from message_empty_iff_valid[where v = "str ''x''" and fieldName = "str ''Name''"
      and s = "str ''529.982.247-25''"] b d t
  have 2: "message (validateRequired (str ''x'') (str ''Name'')) = []"
    and 4: "message (validateDocument (str ''529.982.247-25'')) = str ''CPF v'' @ [225] @ str ''lido''"
    by blast+
  from 1 2 3 4 show ?thesis by blast
qed

end
